theory Spec2Isabelle
  imports Complex_Main
begin

section \<open>The scheduling core of \<^verbatim>\<open>AdvancedOverwatchTOSS\<close>\<close>

text \<open>
  A shallow embedding of the parts of \<^verbatim>\<open>src/src/command_center/overwatch_toss.py\<close>
  that schedule work: the pool of simulated quantum processors with its admission
  check (\<^verbatim>\<open>execute_quantum_task\<close>), the bounded \<^verbatim>\<open>asyncio.Queue\<close> streams with their
  processor loop (\<^verbatim>\<open>_process_data_stream\<close>), the monitor and the adaptive controller
  (\<^verbatim>\<open>_needs_optimization\<close>, \<^verbatim>\<open>_perform_adaptive_optimization\<close>).

  Python floats are modelled as \<open>real\<close>: the properties proved below are bounds and
  equalities of the exact arithmetic the code writes down. The program runs on one
  \<^verbatim>\<open>asyncio\<close> event loop, so a coroutine is only interrupted at an \<^verbatim>\<open>await\<close>; every
  definition below is one such uninterrupted segment, and the interleavings are the
  lists of \<open>activity\<close> values run by \<open>run\<close>.
\<close>

subsection \<open>Exceptions and values of Python\<close>

text \<open>
  The exceptions the modelled code raises, catches or lets through.
  \<^verbatim>\<open>asyncio.CancelledError\<close>, \<^verbatim>\<open>KeyboardInterrupt\<close> and \<^verbatim>\<open>SystemExit\<close> derive
  from \<^verbatim>\<open>BaseException\<close> only, so \<^verbatim>\<open>except Exception\<close> does not catch them.
\<close>

datatype pyexc =
    Exception string
  | TypeError
  | AttributeError
  | KeyError
  | ZeroDivisionError
  | ValueError
  | ConnectionError
  | TimeoutError
  | QueueEmpty
  | QueueFull
  | CancelledError
  | KeyboardInterrupt
  | SystemExit

fun is_Exception :: "pyexc \<Rightarrow> bool" where
  "is_Exception CancelledError = False"
| "is_Exception KeyboardInterrupt = False"
| "is_Exception SystemExit = False"
| "is_Exception _ = True"

datatype pyval = PNone | PInt int | PFloat real | PStr string | PList "pyval list"

text \<open>\<^verbatim>\<open>len(x)\<close>: defined on strings and lists, \<^verbatim>\<open>TypeError\<close> on the other values.\<close>

fun py_len :: "pyval \<Rightarrow> pyexc + nat" where
  "py_len (PStr s) = Inr (length s)"
| "py_len (PList xs) = Inr (length xs)"
| "py_len _ = Inl TypeError"

type_synonym parameters = "(string \<times> pyval) list"

text \<open>\<^verbatim>\<open>d.get(k, default)\<close> on a dictionary kept as an association list.\<close>

definition dict_get :: "('k \<times> 'v) list \<Rightarrow> 'k \<Rightarrow> 'v \<Rightarrow> 'v" where
  "dict_get d k dflt = (case map_of d k of None \<Rightarrow> dflt | Some v \<Rightarrow> v)"

subsection \<open>Data model\<close>

type_synonym timestamp = real

text \<open>The dataclass \<^verbatim>\<open>QuantumState\<close>; \<open>coherence\<close> is the unit's quality.\<close>

record QuantumState =
  coherence :: real
  entanglement_partners :: "string list"
  superposition :: bool
  quantum_signature :: string
  last_measurement :: timestamp

text \<open>
  \<^verbatim>\<open>task_id = f"quantum_task_{datetime.now().timestamp()}"\<close>: the identifier is the
  clock reading at submission behind a fixed prefix.
\<close>

datatype task_id = quantum_task timestamp

text \<open>One entry of the dictionary \<^verbatim>\<open>self.quantum_processors\<close>.\<close>

record processor =
  qubits :: nat
  coherence_time :: nat
  fidelity :: real
  state :: QuantumState
  current_tasks :: "task_id list"
  processing_power :: nat

text \<open>The dictionary keeps its insertion order, which the admission loop walks.\<close>

type_synonym pool = "(string \<times> processor) list"

text \<open>An event on a stream: \<^verbatim>\<open>Dict[str, Any]\<close>, here a dictionary of numeric records.\<close>

type_synonym event = "(string \<times> (string \<times> real) list) list"

text \<open>
  \<^verbatim>\<open>asyncio.Queue(maxsize=n)\<close>: the items, oldest first, and the bound. \<open>unfinished\<close>
  is the queue's count of items put and not yet marked by \<^verbatim>\<open>task_done()\<close>.
\<close>

record queue =
  maxsize :: nat
  items :: "event list"
  unfinished :: nat

text \<open>The dataclass \<^verbatim>\<open>AdvancedMetrics\<close>.\<close>

record AdvancedMetrics =
  processing_efficiency :: real
  predictive_accuracy :: real
  system_reliability :: real
  quantum_coherence :: real
  ai_confidence :: real
  real_time_performance :: real
  cross_system_correlation :: real

text \<open>The lines the modelled code writes to its loggers.\<close>

datatype log_entry =
    QuantumTaskCompleted task_id
  | PerformingAdaptiveOptimization
  | OptimizedQuantumProcessor string
  | OptimizingAIModel string
  | ClearedOverloadedStream string
  | AdaptiveOptimizationCompleted
  | ErrorProcessingStream string pyexc
  | ErrorProcessingData string pyexc
  | ErrorInAdaptiveOptimization pyexc
  | AIDecision event
  | PerformanceMetrics AdvancedMetrics

text \<open>
  The fields of \<^verbatim>\<open>AdvancedOverwatchTOSS\<close> the core reads and writes. \<open>logged\<close> is what
  the loggers have received. \<open>suspended\<close> is not a field of the class: it lists the
  calls of \<^verbatim>\<open>execute_quantum_task\<close> that are waiting at their \<^verbatim>\<open>await\<close>, each with
  the processor it chose and its task id.
\<close>

record toss =
  quantum_processors :: pool
  data_streams :: "(string \<times> queue) list"
  performance_metrics :: AdvancedMetrics
  ai_models :: "string list"
  logged :: "log_entry list"
  suspended :: "(string \<times> task_id) list"

subsection \<open>Initialisation\<close>

text \<open>\<^verbatim>\<open>_initialize_quantum_processors\<close>; \<open>now\<close> is the clock at construction.\<close>

definition QuantumState_init :: "real \<Rightarrow> bool \<Rightarrow> timestamp \<Rightarrow> QuantumState" where
  "QuantumState_init c sp now =
     \<lparr>coherence = c, entanglement_partners = [], superposition = sp,
      quantum_signature = [], last_measurement = now\<rparr>"

definition initialize_quantum_processors :: "timestamp \<Rightarrow> pool" where
  "initialize_quantum_processors now =
     [(''quantum_core_1'',
        \<lparr>qubits = 64, coherence_time = 100, fidelity = 0.999,
         state = QuantumState_init 1.0 True now, current_tasks = [],
         processing_power = 1000\<rparr>),
      (''quantum_core_2'',
        \<lparr>qubits = 32, coherence_time = 80, fidelity = 0.998,
         state = QuantumState_init 0.95 True now, current_tasks = [],
         processing_power = 500\<rparr>),
      (''quantum_core_3'',
        \<lparr>qubits = 16, coherence_time = 120, fidelity = 0.997,
         state = QuantumState_init 0.98 False now, current_tasks = [],
         processing_power = 250\<rparr>)]"

text \<open>\<^verbatim>\<open>_start_real_time_streaming\<close>: six empty queues.\<close>

definition Queue :: "nat \<Rightarrow> queue" where
  "Queue n = \<lparr>maxsize = n, items = [], unfinished = 0\<rparr>"

definition start_real_time_streaming :: "(string \<times> queue) list" where
  "start_real_time_streaming =
     [(''surveillance_stream'', Queue 1000),
      (''operations_stream'', Queue 1000),
      (''analytics_stream'', Queue 1000),
      (''security_stream'', Queue 1000),
      (''quantum_stream'', Queue 500),
      (''ai_decision_stream'', Queue 500)]"

text \<open>The metrics as \<^verbatim>\<open>__init__\<close> sets them.\<close>

definition metrics_init :: AdvancedMetrics where
  "metrics_init =
     \<lparr>processing_efficiency = 0, predictive_accuracy = 0, system_reliability = 0,
      quantum_coherence = 0, ai_confidence = 0, real_time_performance = 0,
      cross_system_correlation = 0\<rparr>"

text \<open>
  The state when \<^verbatim>\<open>start_advanced_systems\<close> has set up the models, the pool and the
  streams.
\<close>

definition started :: "timestamp \<Rightarrow> toss" where
  "started now =
     \<lparr>quantum_processors = initialize_quantum_processors now,
      data_streams = start_real_time_streaming,
      performance_metrics = metrics_init,
      ai_models = [''pattern_recognition'', ''time_series_prediction'',
                   ''language_processor'', ''anomaly_detector'', ''pattern_clusterer''],
      logged = [],
      suspended = []\<rparr>"

subsection \<open>Admission and execution: \<^verbatim>\<open>execute_quantum_task\<close>\<close>

text \<open>
  The search loop: the first processor, in dictionary order, with fewer than two
  current tasks; \<open>None\<close> when the loop ends without a \<^verbatim>\<open>break\<close>.
\<close>

fun find_available :: "pool \<Rightarrow> string option" where
  "find_available [] = None"
| "find_available ((proc_id, p) # rest) =
     (if length (current_tasks p) < 2 then Some proc_id else find_available rest)"

text \<open>
  A dictionary entry is reached through its key; \<open>on_key\<close> applies a change to the
  entry of that key and hands back what the change returned (\<open>None\<close>: no such key).
\<close>

fun on_key :: "'k \<Rightarrow> ('v \<Rightarrow> 'r \<times> 'v) \<Rightarrow> ('k \<times> 'v) list \<Rightarrow> 'r option \<times> ('k \<times> 'v) list" where
  "on_key k f [] = (None, [])"
| "on_key k f ((k', v) # rest) =
     (if k' = k then (case f v of (r, v') \<Rightarrow> (Some r, (k', v') # rest))
      else (case on_key k f rest of (r, rest') \<Rightarrow> (r, (k', v) # rest')))"

text \<open>
  The first segment of \<^verbatim>\<open>execute_quantum_task\<close>, up to its \<^verbatim>\<open>await\<close>: the search, the
  \<^verbatim>\<open>raise\<close> when nothing was found (\<^verbatim>\<open>not available_processor\<close> is also true of an
  empty key), the task id from the clock, and the \<^verbatim>\<open>append\<close>.
\<close>

definition append_task :: "task_id \<Rightarrow> processor \<Rightarrow> unit \<times> processor" where
  "append_task tid p = ((), p\<lparr>current_tasks := current_tasks p @ [tid]\<rparr>)"

definition admit :: "timestamp \<Rightarrow> toss \<Rightarrow> (pyexc + string \<times> task_id) \<times> toss" where
  "admit now s =
     (case find_available (quantum_processors s) of
        None \<Rightarrow> (Inl (Exception ''No quantum processor available''), s)
      | Some available_processor \<Rightarrow>
          if available_processor = [] then
            (Inl (Exception ''No quantum processor available''), s)
          else
            (Inr (available_processor, quantum_task now),
             s\<lparr>quantum_processors :=
                  snd (on_key available_processor (append_task (quantum_task now))
                         (quantum_processors s)),
               suspended := suspended s @ [(available_processor, quantum_task now)]\<rparr>))"

text \<open>
  The random numbers one call draws from \<^verbatim>\<open>numpy.random\<close>, as inputs: the sleep
  time, the three draws of the result's \<^verbatim>\<open>quantum_state\<close>, and the draws of
  \<^verbatim>\<open>_generate_quantum_result\<close>.
\<close>

record draws =
  np_exponential :: real
  np_choice :: bool
  np_entangled :: real
  np_factor :: real
  np_rand :: "nat \<Rightarrow> real"
  np_uniform :: "nat \<Rightarrow> real"
  np_randint :: int

datatype quantum_result =
    optimization_result "real list" real
  | pattern_analysis_result int real
  | prediction_result real "real list"
  | completed_result parameters

text \<open>
  \<^verbatim>\<open>_generate_quantum_result\<close>. For an optimization task it takes
  \<^verbatim>\<open>len(parameters.get('variables', [1]))\<close>, which raises when the value has no length.
\<close>

definition generate_quantum_result ::
  "string \<Rightarrow> parameters \<Rightarrow> draws \<Rightarrow> pyexc + quantum_result" where
  "generate_quantum_result task_type ps d =
     (if task_type = ''optimization'' then
        (case py_len (dict_get ps ''variables'' (PList [PInt 1])) of
           Inl e \<Rightarrow> Inl e
         | Inr n \<Rightarrow> Inr (optimization_result (map (np_rand d) [0..<n]) (np_uniform d 0)))
      else if task_type = ''pattern_analysis'' then
        Inr (pattern_analysis_result (np_randint d) (np_uniform d 0))
      else if task_type = ''prediction'' then
        Inr (prediction_result (np_rand d 0) [np_uniform d 0, np_uniform d 1])
      else Inr (completed_result ps))"

text \<open>The dictionary \<^verbatim>\<open>execute_quantum_task\<close> returns.\<close>

record task_result =
  r_task_id :: task_id
  r_task_type :: string
  r_processor_id :: string
  r_superposition :: bool
  r_entanglement :: bool
  r_coherence :: real
  r_processing_time :: real
  r_result :: quantum_result
  r_timestamp :: timestamp

text \<open>
  The \<^verbatim>\<open>finally\<close> block: \<^verbatim>\<open>if task_id in current_tasks: current_tasks.remove(task_id)\<close>;
  \<^verbatim>\<open>list.remove\<close> deletes the first occurrence.
\<close>

definition release :: "task_id \<Rightarrow> processor \<Rightarrow> processor" where
  "release tid p =
     (if tid \<in> set (current_tasks p)
      then p\<lparr>current_tasks := remove1 tid (current_tasks p)\<rparr> else p)"

text \<open>\<^verbatim>\<open>coherence *= 0.99\<close> and the new \<^verbatim>\<open>last_measurement\<close>.\<close>

definition decohere :: "timestamp \<Rightarrow> processor \<Rightarrow> processor" where
  "decohere now p =
     p\<lparr>state := (state p)\<lparr>coherence := coherence (state p) * 0.99, last_measurement := now\<rparr>\<rparr>"

text \<open>
  The second segment, when the sleep has returned: the result is built (the call of
  \<^verbatim>\<open>_generate_quantum_result\<close> may raise), the coherence decays, and the \<^verbatim>\<open>finally\<close>
  block runs on both ways out. There is no \<^verbatim>\<open>except\<close> clause: \<open>Inl e\<close> is the
  exception \<open>e\<close> leaving \<^verbatim>\<open>execute_quantum_task\<close>.
\<close>

definition resume ::
  "string \<Rightarrow> task_id \<Rightarrow> string \<Rightarrow> parameters \<Rightarrow> draws \<Rightarrow> timestamp \<Rightarrow> processor
     \<Rightarrow> (pyexc + task_result) \<times> processor" where
  "resume proc_id tid task_type ps d now p =
     (case generate_quantum_result task_type ps d of
        Inl e \<Rightarrow> (Inl e, release tid p)
      | Inr res \<Rightarrow>
          (Inr \<lparr>r_task_id = tid, r_task_type = task_type, r_processor_id = proc_id,
                r_superposition = np_choice d, r_entanglement = (np_entangled d > 0.5),
                r_coherence = coherence (state p) * np_factor d,
                r_processing_time = np_exponential d, r_result = res, r_timestamp = now\<rparr>,
           release tid (decohere now p)))"

text \<open>
  The second segment when the task is cancelled while it sleeps: \<^verbatim>\<open>CancelledError\<close>
  is raised at the \<^verbatim>\<open>await\<close> and only the \<^verbatim>\<open>finally\<close> block runs.
\<close>

definition cancelled :: "task_id \<Rightarrow> processor \<Rightarrow> (pyexc + task_result) \<times> processor" where
  "cancelled tid p = (Inl CancelledError, release tid p)"

text \<open>
  A second segment run on the state: on the processor the call holds, with the line
  \<^verbatim>\<open>Quantum task completed\<close> logged when it returned. The call holds the
  processor object itself; here it is found again through its key, and \<open>KeyError\<close>
  stands for a key that is no longer in the dictionary.
\<close>

definition finish_task ::
  "string \<times> task_id \<Rightarrow> (processor \<Rightarrow> (pyexc + task_result) \<times> processor) \<Rightarrow> toss
     \<Rightarrow> (pyexc + task_result) \<times> toss" where
  "finish_task h segment s =
     (case on_key (fst h) segment (quantum_processors s) of
        (None, ps) \<Rightarrow> (Inl KeyError, s)
      | (Some r, ps) \<Rightarrow>
          (r, s\<lparr>quantum_processors := ps,
                suspended := remove1 h (suspended s),
                logged := logged s @
                  (case r of Inl e \<Rightarrow> [] | Inr res \<Rightarrow> [QuantumTaskCompleted (snd h)])\<rparr>))"

text \<open>The whole call with nothing else scheduled while it sleeps.\<close>

definition execute_quantum_task ::
  "string \<Rightarrow> parameters \<Rightarrow> draws \<Rightarrow> timestamp \<Rightarrow> timestamp \<Rightarrow> toss
     \<Rightarrow> (pyexc + task_result) \<times> toss" where
  "execute_quantum_task task_type ps d now later s =
     (case admit now s of
        (Inl e, s1) \<Rightarrow> (Inl e, s1)
      | (Inr h, s1) \<Rightarrow> finish_task h (resume (fst h) (snd h) task_type ps d later) s1)"

subsection \<open>The queues of \<^verbatim>\<open>asyncio\<close>\<close>

definition qsize :: "queue \<Rightarrow> nat" where
  "qsize q = length (items q)"

definition get_nowait :: "queue \<Rightarrow> pyexc + event \<times> queue" where
  "get_nowait q =
     (case items q of [] \<Rightarrow> Inl QueueEmpty | x # xs \<Rightarrow> Inr (x, q\<lparr>items := xs\<rparr>))"

text \<open>A bound of \<open>0\<close> means no bound.\<close>

definition put_nowait :: "event \<Rightarrow> queue \<Rightarrow> pyexc + queue" where
  "put_nowait ev q =
     (if 0 < maxsize q \<and> maxsize q \<le> qsize q then Inl QueueFull
      else Inr (q\<lparr>items := items q @ [ev], unfinished := unfinished q + 1\<rparr>))"

definition task_done :: "queue \<Rightarrow> pyexc + queue" where
  "task_done q =
     (if unfinished q = 0 then Inl ValueError else Inr (q\<lparr>unfinished := unfinished q - 1\<rparr>))"

text \<open>
  \<^verbatim>\<open>asyncio.wait_for(queue.get(), timeout=1.0)\<close>: the oldest item, or \<^verbatim>\<open>TimeoutError\<close>
  when the queue has stayed empty for that second.
\<close>

definition wait_for_get :: "queue \<Rightarrow> pyexc + event \<times> queue" where
  "wait_for_get q = (case get_nowait q of Inl e \<Rightarrow> Inl TimeoutError | Inr r \<Rightarrow> Inr r)"

subsection \<open>The stream processors: \<^verbatim>\<open>_process_data_stream\<close> and its handlers\<close>

text \<open>
  Every handler has the shape \<^verbatim>\<open>try: ... except Exception as e: self.logger.error(...)\<close>.
  What its body calls outside the core (the models, \<^verbatim>\<open>json.dumps\<close>, the Redis client)
  is an input: \<open>raised\<close> is the exception the body ends with, if any. \<open>guarded\<close> is the
  \<^verbatim>\<open>except\<close> clause: it logs an \<^verbatim>\<open>Exception\<close> and returns, and lets anything else through.
\<close>

definition guarded :: "string \<Rightarrow> pyexc option \<Rightarrow> toss \<Rightarrow> pyexc option \<times> toss" where
  "guarded what raised s =
     (case raised of
        None \<Rightarrow> (None, s)
      | Some e \<Rightarrow>
          if is_Exception e then (None, s\<lparr>logged := logged s @ [ErrorProcessingData what e]\<rparr>)
          else (Some e, s))"

definition process_surveillance_data :: "event \<Rightarrow> pyexc option \<Rightarrow> toss \<Rightarrow> pyexc option \<times> toss" where
  "process_surveillance_data data raised s = guarded ''surveillance'' raised s"

definition process_operations_data :: "event \<Rightarrow> pyexc option \<Rightarrow> toss \<Rightarrow> pyexc option \<times> toss" where
  "process_operations_data data raised s = guarded ''operations'' raised s"

definition process_analytics_data :: "event \<Rightarrow> pyexc option \<Rightarrow> toss \<Rightarrow> pyexc option \<times> toss" where
  "process_analytics_data data raised s = guarded ''analytics'' raised s"

definition process_security_data :: "event \<Rightarrow> pyexc option \<Rightarrow> toss \<Rightarrow> pyexc option \<times> toss" where
  "process_security_data data raised s = guarded ''security'' raised s"

text \<open>
  \<^verbatim>\<open>_process_quantum_data\<close> first stores, for every processor whose id is a key of the
  event, \<^verbatim>\<open>data[processor_id].get('coherence', <the current coherence>)\<close>.
\<close>

definition store_coherence :: "event \<Rightarrow> string \<times> processor \<Rightarrow> string \<times> processor" where
  "store_coherence data kp =
     (case kp of (processor_id, p) \<Rightarrow>
        (case map_of data processor_id of
           None \<Rightarrow> (processor_id, p)
         | Some entry \<Rightarrow>
             (processor_id,
              p\<lparr>state := (state p)\<lparr>coherence :=
                   dict_get entry ''coherence'' (coherence (state p))\<rparr>\<rparr>)))"

definition process_quantum_data :: "event \<Rightarrow> pyexc option \<Rightarrow> toss \<Rightarrow> pyexc option \<times> toss" where
  "process_quantum_data data raised s =
     guarded ''quantum'' raised
       (s\<lparr>quantum_processors := map (store_coherence data) (quantum_processors s)\<rparr>)"

definition process_ai_decision_data :: "event \<Rightarrow> pyexc option \<Rightarrow> toss \<Rightarrow> pyexc option \<times> toss" where
  "process_ai_decision_data data raised s =
     guarded ''AI decision'' raised (s\<lparr>logged := logged s @ [AIDecision data]\<rparr>)"

text \<open>The \<^verbatim>\<open>if\<close>/\<^verbatim>\<open>elif\<close> chain on the stream's name.\<close>

definition dispatch :: "string \<Rightarrow> event \<Rightarrow> pyexc option \<Rightarrow> toss \<Rightarrow> pyexc option \<times> toss" where
  "dispatch stream_name data raised s =
     (if stream_name = ''surveillance_stream'' then process_surveillance_data data raised s
      else if stream_name = ''operations_stream'' then process_operations_data data raised s
      else if stream_name = ''analytics_stream'' then process_analytics_data data raised s
      else if stream_name = ''security_stream'' then process_security_data data raised s
      else if stream_name = ''quantum_stream'' then process_quantum_data data raised s
      else if stream_name = ''ai_decision_stream'' then process_ai_decision_data data raised s
      else (None, s))"

text \<open>
  One pass through the body of \<^verbatim>\<open>while True\<close> either goes back to the top or leaves the
  loop with an exception; both carry the state reached.
\<close>

datatype 'a loop_step = Continue 'a | Terminated pyexc 'a

text \<open>
  The two \<^verbatim>\<open>except\<close> clauses of the loop: \<^verbatim>\<open>asyncio.TimeoutError\<close> continues silently,
  any other \<^verbatim>\<open>Exception\<close> is logged (and the loop goes on, the clause being its last
  statement), anything else leaves the coroutine.
\<close>

definition except_clauses ::
  "string \<Rightarrow> pyexc \<Rightarrow> queue \<times> toss \<Rightarrow> (queue \<times> toss) loop_step" where
  "except_clauses stream_name e qs =
     (if e = TimeoutError then Continue qs
      else if is_Exception e then
        Continue (fst qs, (snd qs)\<lparr>logged := logged (snd qs) @ [ErrorProcessingStream stream_name e]\<rparr>)
      else Terminated e qs)"

text \<open>
  What the surroundings do to one pass: the task of the loop is cancelled while it
  waits, or the pass runs and the handler's body ends as \<open>raised\<close> says.
\<close>

datatype wake = CancelledAtAwait | Woken "pyexc option"

definition process_data_stream_pass ::
  "string \<Rightarrow> wake \<Rightarrow> queue \<times> toss \<Rightarrow> (queue \<times> toss) loop_step" where
  "process_data_stream_pass stream_name w qs =
     (case w of
        CancelledAtAwait \<Rightarrow> Terminated CancelledError qs
      | Woken raised \<Rightarrow>
          (case wait_for_get (fst qs) of
             Inl e \<Rightarrow> except_clauses stream_name e qs
           | Inr (data, q1) \<Rightarrow>
               (case dispatch stream_name data raised (snd qs) of
                  (Some e, s1) \<Rightarrow> except_clauses stream_name e (q1, s1)
                | (None, s1) \<Rightarrow>
                    (case task_done q1 of
                       Inl e \<Rightarrow> except_clauses stream_name e (q1, s1)
                     | Inr q2 \<Rightarrow> Continue (q2, s1)))))"


subsection \<open>The monitor: \<^verbatim>\<open>_monitor_performance\<close>\<close>

text \<open>The numbers one pass of the monitor takes from outside: random draws and the clock.\<close>

record monitor_draws =
  accuracy_draws :: "nat \<Rightarrow> real"
  confidence_draw :: real
  elapsed_seconds :: real

definition mean :: "real list \<Rightarrow> real" where
  "mean xs = (if xs = [] then 0 else sum_list xs / real (length xs))"

definition measure_processing_efficiency :: "toss \<Rightarrow> real" where
  "measure_processing_efficiency s =
     real (length (filter (\<lambda>kq. items (snd kq) \<noteq> []) (data_streams s)))
       / real (max (length (data_streams s)) 1)"

definition measure_predictive_accuracy :: "monitor_draws \<Rightarrow> toss \<Rightarrow> real" where
  "measure_predictive_accuracy m s = mean (map (accuracy_draws m) [0..<length (ai_models s)])"

text \<open>The eight widgets of \<^verbatim>\<open>strategic_categories\<close> all count as active.\<close>

definition measure_system_reliability :: "toss \<Rightarrow> real" where
  "measure_system_reliability s =
     (8 / real (max 8 (1::nat))
      + real (length (filter (\<lambda>kp. coherence (state (snd kp)) > 0.5) (quantum_processors s)))
          / real (max (length (quantum_processors s)) 1)) / 2"

definition measure_quantum_coherence :: "toss \<Rightarrow> real" where
  "measure_quantum_coherence s =
     mean (map (\<lambda>kp. coherence (state (snd kp))) (quantum_processors s))"

definition monitor_performance_pass :: "monitor_draws \<Rightarrow> toss \<Rightarrow> toss" where
  "monitor_performance_pass m s =
     (let pm = (performance_metrics s)
            \<lparr>processing_efficiency := measure_processing_efficiency s,
             predictive_accuracy := measure_predictive_accuracy m s,
             system_reliability := measure_system_reliability s,
             quantum_coherence := measure_quantum_coherence s,
             ai_confidence := confidence_draw m,
             real_time_performance := max 0 (1 - elapsed_seconds m / 10)\<rparr>
      in s\<lparr>performance_metrics := pm, logged := logged s @ [PerformanceMetrics pm]\<rparr>)"

text \<open>
  The numeric part of the dictionary \<^verbatim>\<open>_publish_performance_metrics\<close> sends out: the
  seven fields of the metrics, by name.
\<close>

definition metrics_data :: "toss \<Rightarrow> (string \<times> real) list" where
  "metrics_data s =
     [(''processing_efficiency'', processing_efficiency (performance_metrics s)),
      (''predictive_accuracy'', predictive_accuracy (performance_metrics s)),
      (''system_reliability'', system_reliability (performance_metrics s)),
      (''quantum_coherence'', quantum_coherence (performance_metrics s)),
      (''ai_confidence'', ai_confidence (performance_metrics s)),
      (''real_time_performance'', real_time_performance (performance_metrics s)),
      (''cross_system_correlation'', cross_system_correlation (performance_metrics s))]"

subsection \<open>The adaptive controller\<close>

text \<open>\<^verbatim>\<open>_needs_optimization\<close>: some metric is below its threshold.\<close>

definition needs_optimization :: "toss \<Rightarrow> bool" where
  "needs_optimization s =
     (processing_efficiency (performance_metrics s) < 0.7
      \<or> predictive_accuracy (performance_metrics s) < 0.8
      \<or> system_reliability (performance_metrics s) < 0.9
      \<or> quantum_coherence (performance_metrics s) < 0.6
      \<or> ai_confidence (performance_metrics s) < 0.75
      \<or> real_time_performance (performance_metrics s) < 0.8)"

text \<open>The body of the loop over the processors in \<^verbatim>\<open>_perform_adaptive_optimization\<close>.\<close>

definition recalibrate :: "processor \<Rightarrow> processor" where
  "recalibrate p =
     (if coherence (state p) < 0.7
      then p\<lparr>state := (state p)\<lparr>coherence := min 1.0 (coherence (state p) + 0.1)\<rparr>\<rparr>
      else p)"

definition optimize_processors :: "pool \<Rightarrow> pool" where
  "optimize_processors ps = map (\<lambda>kp. (fst kp, recalibrate (snd kp))) ps"

definition optimized_log :: "pool \<Rightarrow> log_entry list" where
  "optimized_log ps =
     map (\<lambda>kp. OptimizedQuantumProcessor (fst kp))
       (filter (\<lambda>kp. coherence (state (snd kp)) < 0.7) ps)"

definition models_log :: "string list \<Rightarrow> log_entry list" where
  "models_log ms = map OptimizingAIModel (filter (\<lambda>m. m \<noteq> ''language_processor'') ms)"

text \<open>
  \<^verbatim>\<open>for _ in range(n): try: queue.get_nowait() except asyncio.QueueEmpty: break\<close>.
  Only \<^verbatim>\<open>QueueEmpty\<close> is caught there; \<open>Some e\<close> is another exception leaving the loop.
\<close>

fun drain :: "nat \<Rightarrow> queue \<Rightarrow> pyexc option \<times> queue" where
  "drain 0 q = (None, q)"
| "drain (Suc n) q =
     (case get_nowait q of
        Inl e \<Rightarrow> if e = QueueEmpty then (None, q) else (Some e, q)
      | Inr (x, q') \<Rightarrow> drain n q')"

text \<open>
  The loop over the streams: a queue of more than 800 items loses up to 100 of them
  and the clearing is logged. An exception ends the loop where it stands.
\<close>

fun clear_overloaded ::
  "(string \<times> queue) list \<Rightarrow> pyexc option \<times> (string \<times> queue) list \<times> log_entry list" where
  "clear_overloaded [] = (None, [], [])"
| "clear_overloaded ((stream_name, q) # rest) =
     (if qsize q > 800 then
        (case drain 100 q of
           (Some e, q') \<Rightarrow> (Some e, (stream_name, q') # rest, [])
         | (None, q') \<Rightarrow>
             (case clear_overloaded rest of
                (r, rest', lg) \<Rightarrow>
                  (r, (stream_name, q') # rest', ClearedOverloadedStream stream_name # lg)))
      else
        (case clear_overloaded rest of
           (r, rest', lg) \<Rightarrow> (r, (stream_name, q) # rest', lg)))"

text \<open>
  \<^verbatim>\<open>_perform_adaptive_optimization\<close>. Its \<^verbatim>\<open>except Exception\<close> clause logs the error in
  place of the closing line.
\<close>

definition perform_adaptive_optimization :: "toss \<Rightarrow> toss" where
  "perform_adaptive_optimization s =
     (case clear_overloaded (data_streams s) of
        (r, streams, lg) \<Rightarrow>
          s\<lparr>quantum_processors := optimize_processors (quantum_processors s),
            data_streams := streams,
            logged := logged s @ [PerformingAdaptiveOptimization]
              @ optimized_log (quantum_processors s) @ models_log (ai_models s) @ lg
              @ (case r of None \<Rightarrow> [AdaptiveOptimizationCompleted]
                 | Some e \<Rightarrow> [ErrorInAdaptiveOptimization e])\<rparr>)"

text \<open>One pass of \<^verbatim>\<open>_adaptive_optimization_loop\<close>: the controller's tick.\<close>

definition adaptive_optimization_pass :: "toss \<Rightarrow> toss" where
  "adaptive_optimization_pass s =
     (if needs_optimization s then perform_adaptive_optimization s else s)"

text \<open>
  The mitigation actions among logged lines: a recalibrated processor, a cleared
  stream.
\<close>

fun is_mitigation :: "log_entry \<Rightarrow> bool" where
  "is_mitigation (OptimizedQuantumProcessor k) = True"
| "is_mitigation (ClearedOverloadedStream k) = True"
| "is_mitigation _ = False"

definition mitigations :: "toss \<Rightarrow> toss \<Rightarrow> log_entry list" where
  "mitigations s s' = filter is_mitigation (drop (length (logged s)) (logged s'))"

subsection \<open>Interleavings\<close>

text \<open>
  What the event loop can run next: the first segment of a task (\<open>Submit\<close>), the
  second segment of a suspended one (\<open>Resume\<close>, \<open>Cancelled\<close>), a producer putting an
  event on a stream, one pass of a stream processor, of the monitor, of the
  controller.
\<close>

datatype activity =
    Submit timestamp
  | Resume "string \<times> task_id" string parameters draws timestamp
  | Cancelled "string \<times> task_id"
  | Produce string event
  | Consume string wake
  | Monitor monitor_draws
  | Controller

definition produce :: "event \<Rightarrow> queue \<Rightarrow> unit \<times> queue" where
  "produce ev q = (case put_nowait ev q of Inl e \<Rightarrow> ((), q) | Inr q' \<Rightarrow> ((), q'))"

definition loop_state :: "'a loop_step \<Rightarrow> 'a" where
  "loop_state l = (case l of Continue x \<Rightarrow> x | Terminated e x \<Rightarrow> x)"

definition consume :: "string \<Rightarrow> wake \<Rightarrow> toss \<Rightarrow> toss" where
  "consume stream_name w s =
     (case map_of (data_streams s) stream_name of
        None \<Rightarrow> s
      | Some q \<Rightarrow>
          (case loop_state (process_data_stream_pass stream_name w (q, s)) of
             (q', s') \<Rightarrow>
               s'\<lparr>data_streams := snd (on_key stream_name (\<lambda>old. ((), q')) (data_streams s'))\<rparr>))"

fun step :: "activity \<Rightarrow> toss \<Rightarrow> toss" where
  "step (Submit now) s = snd (admit now s)"
| "step (Resume h task_type ps d now) s =
     (if h \<in> set (suspended s)
      then snd (finish_task h (resume (fst h) (snd h) task_type ps d now) s) else s)"
| "step (Cancelled h) s =
     (if h \<in> set (suspended s) then snd (finish_task h (cancelled (snd h)) s) else s)"
| "step (Produce stream_name ev) s =
     s\<lparr>data_streams := snd (on_key stream_name (produce ev) (data_streams s))\<rparr>"
| "step (Consume stream_name w) s = consume stream_name w s"
| "step (Monitor m) s = monitor_performance_pass m s"
| "step Controller s = adaptive_optimization_pass s"

fun run :: "activity list \<Rightarrow> toss \<Rightarrow> toss" where
  "run [] s = s"
| "run (a # as) s = run as (step a s)"

subsection \<open>Observations and sample inputs\<close>

text \<open>The current tasks and the coherence of the processor with a given id.\<close>

definition tasks_of :: "toss \<Rightarrow> string \<Rightarrow> task_id list" where
  "tasks_of s k =
     (case map_of (quantum_processors s) k of None \<Rightarrow> [] | Some p \<Rightarrow> current_tasks p)"

definition quality :: "toss \<Rightarrow> string \<Rightarrow> real option" where
  "quality s k = map_option (\<lambda>p. coherence (state p)) (map_of (quantum_processors s) k)"

definition depth :: "toss \<Rightarrow> string \<Rightarrow> nat option" where
  "depth s k = map_option qsize (map_of (data_streams s) k)"

text \<open>One outcome of the random draws, for the examples.\<close>

definition sample_draws :: draws where
  "sample_draws =
     \<lparr>np_exponential = 2, np_choice = True, np_entangled = 0.25, np_factor = 0.95,
      np_rand = (\<lambda>i. 0.5), np_uniform = (\<lambda>i. 0.75), np_randint = 7\<rparr>"

text \<open>
  The state in which the named stream holds \<open>n\<close> events that producers have put and
  no processor has taken yet.
\<close>

definition fill :: "nat \<Rightarrow> queue \<Rightarrow> unit \<times> queue" where
  "fill n q = ((), q\<lparr>items := replicate n [], unfinished := n\<rparr>)"

definition loaded :: "string \<Rightarrow> nat \<Rightarrow> toss \<Rightarrow> toss" where
  "loaded stream_name n s =
     s\<lparr>data_streams := snd (on_key stream_name (fill n) (data_streams s))\<rparr>"

text \<open>The ids of the pool, each with the list of its current tasks.\<close>

definition loads :: "toss \<Rightarrow> (string \<times> task_id list) list" where
  "loads s = map (\<lambda>kp. (fst kp, current_tasks (snd kp))) (quantum_processors s)"

text \<open>
  Well-formedness of a state: the pool is a dictionary (no key twice), no processor
  holds more than two tasks, and the list of a processor holds a task id as often as
  there are suspended calls on that processor with that id.
\<close>

definition keys_ok :: "toss \<Rightarrow> bool" where
  "keys_ok s = distinct (map fst (quantum_processors s))"

definition cap_ok :: "toss \<Rightarrow> bool" where
  "cap_ok s = (\<forall>kp\<in>set (quantum_processors s). length (current_tasks (snd kp)) \<le> 2)"

definition held_ok :: "toss \<Rightarrow> bool" where
  "held_ok s =
     (\<forall>k tid. count_list (tasks_of s k) tid = count_list (suspended s) (k, tid))"

text \<open>
  An event whose \<^verbatim>\<open>coherence\<close> fields all lie between 0 and 1; an activity that puts
  only such events on the quantum stream; a state whose coherences lie between 0 and
  1, and one whose quantum stream holds only such events.
\<close>

definition event_in_range :: "event \<Rightarrow> bool" where
  "event_in_range ev =
     (\<forall>kd\<in>set ev. \<forall>fv\<in>set (snd kd). fst fv = ''coherence'' \<longrightarrow> 0 \<le> snd fv \<and> snd fv \<le> 1)"

fun in_range_activity :: "activity \<Rightarrow> bool" where
  "in_range_activity (Produce stream_name ev) =
     (stream_name = ''quantum_stream'' \<longrightarrow> event_in_range ev)"
| "in_range_activity _ = True"

definition quality_ok :: "toss \<Rightarrow> bool" where
  "quality_ok s =
     (\<forall>kp\<in>set (quantum_processors s).
        0 \<le> coherence (state (snd kp)) \<and> coherence (state (snd kp)) \<le> 1)"

definition events_ok :: "toss \<Rightarrow> bool" where
  "events_ok s =
     (\<forall>nq\<in>set (data_streams s). fst nq = ''quantum_stream'' \<longrightarrow>
        (\<forall>ev\<in>set (items (snd nq)). event_in_range ev))"

definition unit_ok :: "string \<times> processor \<Rightarrow> bool" where
  "unit_ok kp = (0 \<le> coherence (state (snd kp)) \<and> coherence (state (snd kp)) \<le> 1)"

definition stream_ok :: "string \<times> queue \<Rightarrow> bool" where
  "stream_ok nq =
     (fst nq = ''quantum_stream'' \<longrightarrow> (\<forall>ev\<in>set (items (snd nq)). event_in_range ev))"

text \<open>
  A state in which an event of the quantum stream has set the coherence of
  \<^verbatim>\<open>quantum_core_2\<close> to 0.65, below the controller's threshold.
\<close>

definition degraded :: toss where
  "degraded =
     run [Produce ''quantum_stream'' [(''quantum_core_2'', [(''coherence'', 0.65)])],
          Consume ''quantum_stream'' (Woken None)] (started 0)"




text \<open>
  A state in which the surveillance stream is full, every other stream holds an event,
  and the monitor has just measured metrics that are all above their thresholds.
\<close>

definition sample_monitor_draws :: monitor_draws where
  "sample_monitor_draws =
     \<lparr>accuracy_draws = (\<lambda>i. 0.9), confidence_draw = 0.9, elapsed_seconds = 0.1\<rparr>"

definition busy :: toss where
  "busy =
     run [Produce ''operations_stream'' [], Produce ''analytics_stream'' [],
          Produce ''security_stream'' [], Produce ''quantum_stream'' [],
          Produce ''ai_decision_stream'' [], Monitor sample_monitor_draws]
       (loaded ''surveillance_stream'' 1000 (started 0))"

section \<open>Properties\<close>

subsection \<open>Dictionaries as association lists\<close>

lemma on_key_keys: "map fst (snd (on_key k f xs)) = map fst xs"
  by (induction xs) (auto split: prod.splits)

lemma on_key_map_of:
  "map_of (snd (on_key k f xs)) k' =
     (if k' = k then map_option (\<lambda>v. snd (f v)) (map_of xs k) else map_of xs k')"
  by (induction xs) (auto split: prod.splits)

lemma on_key_result: "fst (on_key k f xs) = map_option (\<lambda>v. fst (f v)) (map_of xs k)"
  by (induction xs) (auto split: prod.splits)

lemmas exec_defs = admit_def append_task_def started_def initialize_quantum_processors_def
  QuantumState_init_def start_real_time_streaming_def Queue_def metrics_init_def
  tasks_of_def quality_def depth_def finish_task_def release_def decohere_def resume_def
  cancelled_def

subsection \<open>Admission\<close>

text \<open>
  The search loop returns a key exactly when the pool splits into a prefix of
  processors that are all full, the processor of that key with a free slot, and a rest
  the loop never looks at.
\<close>

lemma find_available_Some_iff:
  "find_available ps = Some k \<longleftrightarrow>
     (\<exists>pre p post. ps = pre @ (k, p) # post
        \<and> (\<forall>kp\<in>set pre. 2 \<le> length (current_tasks (snd kp)))
        \<and> length (current_tasks p) < 2)"
proof (induction ps)
  case Nil
  then show ?case by simp
next
  case (Cons a ps)
  obtain k' p' where a: "a = (k', p')" by (cases a)
  show ?case
  proof (cases "length (current_tasks p') < 2")
    case True
    have "(\<exists>pre p post. (k', p') # ps = pre @ (k, p) # post
        \<and> (\<forall>kp\<in>set pre. 2 \<le> length (current_tasks (snd kp)))
        \<and> length (current_tasks p) < 2) \<longleftrightarrow> k' = k"
    proof
      assume "\<exists>pre p post. (k', p') # ps = pre @ (k, p) # post
        \<and> (\<forall>kp\<in>set pre. 2 \<le> length (current_tasks (snd kp)))
        \<and> length (current_tasks p) < 2"
      then obtain pre p post where e: "(k', p') # ps = pre @ (k, p) # post"
        and f: "\<forall>kp\<in>set pre. 2 \<le> length (current_tasks (snd kp))" by blast
      show "k' = k"
      proof (cases pre)
        case Nil
        with e show ?thesis by simp
      next
        case (Cons b pre')
        with e have "b = (k', p')" by simp
        with Cons f True show ?thesis by auto
      qed
    next
      assume "k' = k"
      then have "(k', p') # ps = [] @ (k, p') # ps" by simp
      with True show "\<exists>pre p post. (k', p') # ps = pre @ (k, p) # post
        \<and> (\<forall>kp\<in>set pre. 2 \<le> length (current_tasks (snd kp)))
        \<and> length (current_tasks p) < 2" by fastforce
    qed
    with True a show ?thesis by auto
  next
    case False
    have "(\<exists>pre p post. (k', p') # ps = pre @ (k, p) # post
        \<and> (\<forall>kp\<in>set pre. 2 \<le> length (current_tasks (snd kp)))
        \<and> length (current_tasks p) < 2) \<longleftrightarrow>
      (\<exists>pre p post. ps = pre @ (k, p) # post
        \<and> (\<forall>kp\<in>set pre. 2 \<le> length (current_tasks (snd kp)))
        \<and> length (current_tasks p) < 2)" (is "?L \<longleftrightarrow> ?R")
    proof
      assume ?L
      then obtain pre p post where e: "(k', p') # ps = pre @ (k, p) # post"
        and f: "\<forall>kp\<in>set pre. 2 \<le> length (current_tasks (snd kp))"
        and g: "length (current_tasks p) < 2" by blast
      show ?R
      proof (cases pre)
        case Nil
        with e g False show ?thesis by simp
      next
        case (Cons b pre')
        with e have "ps = pre' @ (k, p) # post" by simp
        with Cons f g show ?thesis by auto
      qed
    next
      assume ?R
      then obtain pre p post where e: "ps = pre @ (k, p) # post"
        and f: "\<forall>kp\<in>set pre. 2 \<le> length (current_tasks (snd kp))"
        and g: "length (current_tasks p) < 2" by blast
      from e have "(k', p') # ps = ((k', p') # pre) @ (k, p) # post" by simp
      moreover from f False
      have "\<forall>kp\<in>set ((k', p') # pre). 2 \<le> length (current_tasks (snd kp))"
        by auto
      ultimately show ?L using g by blast
    qed
    with False a Cons.IH show ?thesis by simp
  qed
qed

lemma find_available_None_iff:
  "find_available ps = None \<longleftrightarrow> (\<forall>kp\<in>set ps. 2 \<le> length (current_tasks (snd kp)))"
  by (induction ps) (auto split: if_splits)

text \<open>
  Claim C1 says that admission picks, among the units with a free slot, the one of
  highest quality (ties to the lowest id). The code does not look at the quality: with
  \<^verbatim>\<open>quantum_core_1\<close> full, \<^verbatim>\<open>quantum_core_2\<close> (coherence 0.95) and \<^verbatim>\<open>quantum_core_3\<close>
  (coherence 0.98) both idle, the next task goes to \<^verbatim>\<open>quantum_core_2\<close>.
\<close>

theorem admit_highest_quality_counterexample:
  "fst (admit 3 (run [Submit 1, Submit 2] (started 0))) = Inr (''quantum_core_2'', quantum_task 3)
   \<and> tasks_of (run [Submit 1, Submit 2] (started 0)) ''quantum_core_2'' = []
   \<and> tasks_of (run [Submit 1, Submit 2] (started 0)) ''quantum_core_3'' = []
   \<and> quality (run [Submit 1, Submit 2] (started 0)) ''quantum_core_2'' = Some 0.95
   \<and> quality (run [Submit 1, Submit 2] (started 0)) ''quantum_core_3'' = Some 0.98"
  by (simp add: exec_defs)

text \<open>
  Claim C1, as the code has it: admission is first fit. A submission is admitted to the
  unit \<open>k\<close> exactly when \<open>k\<close> is the first unit, in the order of the pool, with fewer
  than two current tasks; the task id is made from the clock; the coherence of the
  units plays no part.
\<close>

theorem admit_first_fit:
  "fst (admit now s) = Inr (k, tid) \<longleftrightarrow>
     tid = quantum_task now \<and> k \<noteq> [] \<and>
     (\<exists>pre p post. quantum_processors s = pre @ (k, p) # post
        \<and> (\<forall>kp\<in>set pre. 2 \<le> length (current_tasks (snd kp)))
        \<and> length (current_tasks p) < 2)"
proof (cases "find_available (quantum_processors s)")
  case None
  then have "\<not> (\<exists>pre p post. quantum_processors s = pre @ (k, p) # post
        \<and> (\<forall>kp\<in>set pre. 2 \<le> length (current_tasks (snd kp)))
        \<and> length (current_tasks p) < 2)"
    using find_available_Some_iff [of "quantum_processors s" k] by simp
  with None show ?thesis by (simp add: admit_def)
next
  case (Some k')
  have "k' = k \<longleftrightarrow> (\<exists>pre p post. quantum_processors s = pre @ (k, p) # post
        \<and> (\<forall>kp\<in>set pre. 2 \<le> length (current_tasks (snd kp)))
        \<and> length (current_tasks p) < 2)"
    using find_available_Some_iff [of "quantum_processors s" k] Some by simp
  with Some show ?thesis by (auto simp: admit_def)
qed

theorem admit_first_fit_witness:
  "fst (admit 3 (started 0)) = Inr (''quantum_core_1'', quantum_task 3)"
proof -
  have "quantum_processors (started 0) =
      [] @ (''quantum_core_1'', snd (hd (initialize_quantum_processors 0)))
         # tl (initialize_quantum_processors 0)"
    by (simp add: started_def initialize_quantum_processors_def)
  moreover have "length (current_tasks (snd (hd (initialize_quantum_processors 0)))) < 2"
    by (simp add: initialize_quantum_processors_def)
  ultimately have "\<exists>pre p post. quantum_processors (started 0) = pre @ (''quantum_core_1'', p) # post
        \<and> (\<forall>kp\<in>set pre. 2 \<le> length (current_tasks (snd kp)))
        \<and> length (current_tasks p) < 2"
    by (metis empty_iff list.set(1))
  then show ?thesis
    using admit_first_fit [of 3 "started 0" "''quantum_core_1''" "quantum_task 3"] by simp
qed

subsection \<open>Clearing an overloaded stream\<close>

lemma drain_eq: "drain n q = (None, q\<lparr>items := drop n (items q)\<rparr>)"
proof (induction n arbitrary: q)
  case 0
  then show ?case by simp
next
  case (Suc n)
  show ?case
  proof (cases "items q")
    case Nil
    then show ?thesis by (simp add: get_nowait_def)
  next
    case (Cons x xs)
    then show ?thesis using Suc [of "q\<lparr>items := xs\<rparr>"] by (simp add: get_nowait_def)
  qed
qed

lemma clear_overloaded_eq:
  "clear_overloaded streams =
     (None,
      map (\<lambda>nq. (fst nq, if 800 < qsize (snd nq)
                           then (snd nq)\<lparr>items := drop 100 (items (snd nq))\<rparr> else snd nq)) streams,
      map (\<lambda>nq. ClearedOverloadedStream (fst nq)) (filter (\<lambda>nq. 800 < qsize (snd nq)) streams))"
proof (induction streams)
  case Nil
  then show ?case by simp
next
  case (Cons a streams)
  obtain n q where a: "a = (n, q)" by (cases a)
  show ?case unfolding a using Cons by (simp add: drain_eq)
qed

subsection \<open>What the activities leave unchanged\<close>

lemma store_coherence_load:
  "fst (store_coherence data kp) = fst kp
   \<and> current_tasks (snd (store_coherence data kp)) = current_tasks (snd kp)"
  by (cases kp) (simp add: store_coherence_def split: option.splits)

lemma guarded_effect:
  "guarded what raised s = (r, s') \<Longrightarrow>
     quantum_processors s' = quantum_processors s \<and> data_streams s' = data_streams s
     \<and> suspended s' = suspended s \<and> performance_metrics s' = performance_metrics s
     \<and> ai_models s' = ai_models s"
  by (auto simp: guarded_def split: option.splits if_splits)

lemma dispatch_effect:
  "dispatch stream_name data raised s = (r, s') \<Longrightarrow>
     (quantum_processors s' = quantum_processors s
        \<or> stream_name = ''quantum_stream''
          \<and> quantum_processors s' = map (store_coherence data) (quantum_processors s))
     \<and> data_streams s' = data_streams s
     \<and> suspended s' = suspended s \<and> performance_metrics s' = performance_metrics s
     \<and> ai_models s' = ai_models s"
  unfolding dispatch_def process_surveillance_data_def process_operations_data_def
    process_analytics_data_def process_security_data_def process_quantum_data_def
    process_ai_decision_data_def
  by (auto split: if_splits dest!: guarded_effect)

lemma except_clauses_effect:
  "loop_state (except_clauses stream_name e (q, s)) = (q', s') \<Longrightarrow>
     q' = q \<and> quantum_processors s' = quantum_processors s \<and> data_streams s' = data_streams s
     \<and> suspended s' = suspended s \<and> performance_metrics s' = performance_metrics s
     \<and> ai_models s' = ai_models s"
  by (auto simp: except_clauses_def loop_state_def split: if_splits)

lemma pass_effect:
  assumes "loop_state (process_data_stream_pass stream_name w (q, s)) = (q', s')"
  shows "(quantum_processors s' = quantum_processors s
          \<or> stream_name = ''quantum_stream''
            \<and> (\<exists>data\<in>set (items q).
                  quantum_processors s' = map (store_coherence data) (quantum_processors s)))
     \<and> data_streams s' = data_streams s
     \<and> suspended s' = suspended s \<and> performance_metrics s' = performance_metrics s
     \<and> ai_models s' = ai_models s
     \<and> maxsize q' = maxsize q \<and> (\<exists>n. items q' = drop n (items q))"
proof (cases w)
  case CancelledAtAwait
  with assms have "q' = q" "s' = s"
    by (simp_all add: process_data_stream_pass_def loop_state_def)
  then show ?thesis by (auto intro: exI [of _ 0])
next
  case (Woken raised)
  show ?thesis
  proof (cases "items q")
    case Nil
    with Woken assms have "loop_state (except_clauses stream_name TimeoutError (q, s)) = (q', s')"
      by (simp add: process_data_stream_pass_def wait_for_get_def get_nowait_def)
    from except_clauses_effect [OF this] show ?thesis by (auto intro: exI [of _ 0])
  next
    case (Cons data rest)
    obtain r s1 where d: "dispatch stream_name data raised s = (r, s1)"
      by (cases "dispatch stream_name data raised s")
    note de = dispatch_effect [OF d]
    have i: "items (q\<lparr>items := rest\<rparr>) = drop 1 (items q)" using Cons by simp
    show ?thesis
    proof (cases r)
      case (Some e)
      with Woken Cons d assms
      have "loop_state (except_clauses stream_name e (q\<lparr>items := rest\<rparr>, s1)) = (q', s')"
        by (simp add: process_data_stream_pass_def wait_for_get_def get_nowait_def)
      from except_clauses_effect [OF this] de Cons i show ?thesis
        by (auto intro: exI [of _ 1])
    next
      case None
      show ?thesis
      proof (cases "task_done (q\<lparr>items := rest\<rparr>)")
        case (Inl e)
        with None Woken Cons d assms
        have "loop_state (except_clauses stream_name e (q\<lparr>items := rest\<rparr>, s1)) = (q', s')"
          by (simp add: process_data_stream_pass_def wait_for_get_def get_nowait_def)
        from except_clauses_effect [OF this] de Cons i show ?thesis
          by (auto intro: exI [of _ 1])
      next
        case (Inr q2)
        with None Woken Cons d assms have "q' = q2" "s' = s1"
          by (simp_all add: process_data_stream_pass_def wait_for_get_def get_nowait_def
              loop_state_def)
        moreover from Inr have "items q2 = rest" "maxsize q2 = maxsize q"
          by (auto simp: task_done_def split: if_splits)
        ultimately show ?thesis using de Cons by (auto intro: exI [of _ 1])
      qed
    qed
  qed
qed


lemma on_key_set:
  "kv \<in> set (snd (on_key k f xs)) \<Longrightarrow>
     kv \<in> set xs \<or> (\<exists>v. map_of xs k = Some v \<and> kv = (k, snd (f v)))"
  by (induction xs) (auto split: prod.splits if_splits)

lemma find_available_map_of:
  "distinct (map fst ps) \<Longrightarrow> find_available ps = Some k \<Longrightarrow>
     \<exists>p. map_of ps k = Some p \<and> length (current_tasks p) < 2"
proof (induction ps)
  case Nil
  then show ?case by simp
next
  case (Cons a ps)
  obtain k' p' where a: "a = (k', p')" by (cases a)
  show ?case
  proof (cases "length (current_tasks p') < 2")
    case True
    with Cons.prems a show ?thesis by simp
  next
    case False
    with Cons.prems a have f: "find_available ps = Some k" by simp
    from Cons.prems have "distinct (map fst ps)" by simp
    from Cons.IH [OF this f] obtain p
      where p: "map_of ps k = Some p" "length (current_tasks p) < 2" by blast
    from p(1) have "k \<in> fst ` set ps" by (metis map_of_eq_None_iff option.distinct(1))
    with Cons.prems a have "k' \<noteq> k" by auto
    with p a show ?thesis by simp
  qed
qed

lemma admit_keys: "map fst (quantum_processors (snd (admit now s))) = map fst (quantum_processors s)"
  by (simp add: admit_def on_key_keys split: option.splits)

lemma finish_task_keys:
  "map fst (quantum_processors (snd (finish_task h seg s))) = map fst (quantum_processors s)"
proof (cases "on_key (fst h) seg (quantum_processors s)")
  case (Pair r ps)
  then have "ps = snd (on_key (fst h) seg (quantum_processors s))" by simp
  then have "map fst ps = map fst (quantum_processors s)" by (simp add: on_key_keys)
  with Pair show ?thesis by (simp add: finish_task_def split: option.splits)
qed

lemma loads_consume: "loads (consume stream_name w s) = loads s"
proof (cases "map_of (data_streams s) stream_name")
  case None
  then show ?thesis by (simp add: consume_def)
next
  case (Some q)
  obtain q' s' where l: "loop_state (process_data_stream_pass stream_name w (q, s)) = (q', s')"
    by (cases "loop_state (process_data_stream_pass stream_name w (q, s))")
  from pass_effect [OF l] have "loads s' = loads s"
    by (auto simp: loads_def store_coherence_load)
  with Some l show ?thesis by (simp add: consume_def loads_def)
qed

lemma loads_controller: "loads (adaptive_optimization_pass s) = loads s"
  by (simp add: adaptive_optimization_pass_def perform_adaptive_optimization_def loads_def
      optimize_processors_def recalibrate_def split: prod.splits)

lemma loads_other:
  "loads (step (Produce n ev) s) = loads s"
  "loads (step (Consume n w) s) = loads s"
  "loads (step (Monitor m) s) = loads s"
  "loads (step Controller s) = loads s"
  by (simp_all add: loads_consume loads_controller)
    (simp_all add: loads_def monitor_performance_pass_def Let_def)

lemma keys_loads: "map fst (loads s) = map fst (quantum_processors s)"
  by (simp add: loads_def)

lemma cap_loads: "cap_ok s \<longleftrightarrow> (\<forall>kl\<in>set (loads s). length (snd kl) \<le> 2)"
  by (auto simp: cap_ok_def loads_def)

lemma step_keys: "map fst (quantum_processors (step a s)) = map fst (quantum_processors s)"
proof (cases a)
  case (Submit now)
  then show ?thesis by (simp add: admit_keys)
next
  case (Resume h tt ps d now)
  then show ?thesis by (simp add: finish_task_keys)
next
  case (Cancelled h)
  then show ?thesis by (simp add: finish_task_keys)
next
  case (Produce n ev)
  then show ?thesis by simp
next
  case (Consume n w)
  then show ?thesis using loads_other(2) [of n w s] keys_loads by metis
next
  case (Monitor m)
  then show ?thesis using loads_other(3) [of m s] keys_loads by metis
next
  case Controller
  then show ?thesis using loads_other(4) [of s] keys_loads by metis
qed

lemma release_length: "length (current_tasks (release tid p)) \<le> length (current_tasks p)"
  by (simp add: release_def length_remove1)

lemma segment_length:
  "length (current_tasks (snd (resume k tid tt ps d now p))) \<le> length (current_tasks p)"
  "length (current_tasks (snd (cancelled tid p))) \<le> length (current_tasks p)"
  using release_length [of tid p] release_length [of tid "decohere now p"]
  by (auto simp: resume_def cancelled_def decohere_def split: sum.splits)

lemma finish_task_cap:
  assumes "cap_ok s" and "\<And>p. length (current_tasks (snd (seg p))) \<le> length (current_tasks p)"
  shows "cap_ok (snd (finish_task h seg s))"
proof (cases "on_key (fst h) seg (quantum_processors s)")
  case (Pair r ps)
  then have ps: "ps = snd (on_key (fst h) seg (quantum_processors s))" by simp
  have "\<forall>kp\<in>set ps. length (current_tasks (snd kp)) \<le> 2"
  proof
    fix kp assume "kp \<in> set ps"
    with ps on_key_set [of kp "fst h" seg "quantum_processors s"]
    consider "kp \<in> set (quantum_processors s)"
      | v where "map_of (quantum_processors s) (fst h) = Some v" "kp = (fst h, snd (seg v))"
      by blast
    then show "length (current_tasks (snd kp)) \<le> 2"
    proof cases
      case 1
      with assms(1) show ?thesis by (simp add: cap_ok_def)
    next
      case 2
      from 2(1) have "(fst h, v) \<in> set (quantum_processors s)" by (rule map_of_SomeD)
      with assms(1) have "length (current_tasks v) \<le> 2" by (auto simp: cap_ok_def)
      with assms(2) [of v] 2(2) show ?thesis by simp
    qed
  qed
  with Pair assms(1) show ?thesis by (cases r) (simp_all add: finish_task_def cap_ok_def)
qed

lemma admit_cap:
  assumes "keys_ok s" "cap_ok s"
  shows "cap_ok (snd (admit now s))"
proof (cases "find_available (quantum_processors s)")
  case None
  with assms show ?thesis by (simp add: admit_def)
next
  case (Some k)
  from find_available_map_of [OF assms(1) [unfolded keys_ok_def] Some] obtain p
    where p: "map_of (quantum_processors s) k = Some p" "length (current_tasks p) < 2" by blast
  show ?thesis
  proof (cases "k = []")
    case True
    with Some assms show ?thesis by (simp add: admit_def)
  next
    case False
    have "\<forall>kp\<in>set (snd (on_key k (append_task (quantum_task now)) (quantum_processors s))).
        length (current_tasks (snd kp)) \<le> 2"
    proof
      fix kp assume "kp \<in> set (snd (on_key k (append_task (quantum_task now)) (quantum_processors s)))"
      from on_key_set [OF this] p assms(2) show "length (current_tasks (snd kp)) \<le> 2"
        by (auto simp: cap_ok_def append_task_def)
    qed
    with Some False show ?thesis by (simp add: admit_def cap_ok_def)
  qed
qed

lemma step_cap:
  assumes "keys_ok s" "cap_ok s"
  shows "cap_ok (step a s)"
proof (cases a)
  case (Submit now)
  with assms show ?thesis by (simp add: admit_cap)
next
  case (Resume h tt ps d now)
  with assms(2) show ?thesis by (simp add: finish_task_cap segment_length)
next
  case (Cancelled h)
  with assms(2) show ?thesis by (simp add: finish_task_cap segment_length)
next
  case (Produce n ev)
  with assms(2) show ?thesis using loads_other(1) [of n ev s] by (simp only: cap_loads)
next
  case (Consume n w)
  with assms(2) show ?thesis using loads_other(2) [of n w s] by (simp only: cap_loads)
next
  case (Monitor m)
  with assms(2) show ?thesis using loads_other(3) [of m s] by (simp only: cap_loads)
next
  case Controller
  with assms(2) show ?thesis using loads_other(4) [of s] by (simp only: cap_loads)
qed

lemma run_cap: "keys_ok s \<Longrightarrow> cap_ok s \<Longrightarrow> keys_ok (run as s) \<and> cap_ok (run as s)"
proof (induction as arbitrary: s)
  case Nil
  then show ?case by simp
next
  case (Cons a as)
  from Cons.prems have "keys_ok (step a s)" by (simp add: keys_ok_def step_keys)
  moreover from Cons.prems have "cap_ok (step a s)" by (rule step_cap)
  ultimately show ?case using Cons.IH by simp
qed

subsection \<open>The capacity of a processor\<close>

text \<open>
  Claim C2: whatever the event loop runs, in whatever order, from a well-formed state
  (such as the state after start-up), no processor ever holds more than two tasks: the
  check for a free slot and the \<^verbatim>\<open>append\<close> lie in one segment with no \<^verbatim>\<open>await\<close>
  between them. And when every processor holds two tasks, a submission raises
  \<^verbatim>\<open>Exception("No quantum processor available")\<close>, the code's form of
  \<^verbatim>\<open>ResourceExhausted\<close>, and leaves the state as it was.
\<close>

theorem capacity_never_exceeded:
  assumes "keys_ok s0" and "cap_ok s0"
  shows "(\<forall>kp\<in>set (quantum_processors (run as s0)). length (current_tasks (snd kp)) \<le> 2)
       \<and> ((\<forall>kp\<in>set (quantum_processors (run as s0)). 2 \<le> length (current_tasks (snd kp))) \<longrightarrow>
            admit now (run as s0) = (Inl (Exception ''No quantum processor available''), run as s0))"
proof
  from run_cap [OF assms]
  show "\<forall>kp\<in>set (quantum_processors (run as s0)). length (current_tasks (snd kp)) \<le> 2"
    by (simp add: cap_ok_def)
next
  show "(\<forall>kp\<in>set (quantum_processors (run as s0)). 2 \<le> length (current_tasks (snd kp))) \<longrightarrow>
      admit now (run as s0) = (Inl (Exception ''No quantum processor available''), run as s0)"
  proof
    assume "\<forall>kp\<in>set (quantum_processors (run as s0)). 2 \<le> length (current_tasks (snd kp))"
    then have "find_available (quantum_processors (run as s0)) = None"
      by (simp add: find_available_None_iff)
    then show "admit now (run as s0) = (Inl (Exception ''No quantum processor available''), run as s0)"
      by (simp add: admit_def)
  qed
qed

theorem capacity_never_exceeded_witness:
  "keys_ok (started 0) \<and> cap_ok (started 0)
   \<and> map snd (loads (run [Submit 1, Submit 2, Submit 3, Submit 4, Submit 5, Submit 6] (started 0)))
       = [[quantum_task 1, quantum_task 2], [quantum_task 3, quantum_task 4],
          [quantum_task 5, quantum_task 6]]
   \<and> fst (admit 7 (run [Submit 1, Submit 2, Submit 3, Submit 4, Submit 5, Submit 6] (started 0)))
       = Inl (Exception ''No quantum processor available'')
   \<and> loads (snd (admit 7 (run [Submit 1, Submit 2, Submit 3, Submit 4, Submit 5, Submit 6] (started 0))))
       = loads (run [Submit 1, Submit 2, Submit 3, Submit 4, Submit 5, Submit 6] (started 0))"
  using capacity_never_exceeded
    [of "started 0" "[Submit 1, Submit 2, Submit 3, Submit 4, Submit 5, Submit 6]" 7]
  by (simp add: keys_ok_def cap_ok_def loads_def exec_defs)

subsection \<open>Release of the slot\<close>

lemma count_list_remove1:
  "count_list (remove1 x xs) y = (if x = y then count_list xs y - 1 else count_list xs y)"
  by (induction xs) auto

lemma tasks_of_loads:
  "tasks_of s k = (case map_of (loads s) k of None \<Rightarrow> [] | Some l \<Rightarrow> l)"
proof -
  have "map_of (map (\<lambda>kp. (fst kp, current_tasks (snd kp))) xs) k
      = map_option current_tasks (map_of xs k)" for xs :: pool
    by (induction xs) auto
  then show ?thesis by (simp add: tasks_of_def loads_def split: option.splits)
qed

lemma find_available_key: "find_available ps = Some k \<Longrightarrow> map_of ps k \<noteq> None"
  by (induction ps) (auto split: if_splits)

lemma tasks_of_admit:
  "tasks_of (snd (admit now s)) k' =
     (case fst (admit now s) of
        Inl e \<Rightarrow> tasks_of s k'
      | Inr h \<Rightarrow> if k' = fst h then tasks_of s k' @ [snd h] else tasks_of s k')"
proof (cases "find_available (quantum_processors s)")
  case None
  then show ?thesis by (simp add: admit_def)
next
  case (Some k)
  from find_available_key [OF this] obtain p where "map_of (quantum_processors s) k = Some p"
    by blast
  with Some show ?thesis
    by (simp add: admit_def tasks_of_def on_key_map_of append_task_def)
qed

lemma suspended_admit:
  "suspended (snd (admit now s)) =
     (case fst (admit now s) of Inl e \<Rightarrow> suspended s | Inr h \<Rightarrow> suspended s @ [h])"
  by (simp add: admit_def split: option.splits)

lemma admit_held: "held_ok s \<Longrightarrow> held_ok (snd (admit now s))"
  unfolding held_ok_def
  by (cases "fst (admit now s)") (auto simp: tasks_of_admit suspended_admit)

text \<open>A second segment that ends in the finally block and changes no list otherwise.\<close>

lemma tasks_of_finish:
  assumes "\<And>p. current_tasks (snd (seg p)) = remove1 (snd h) (current_tasks p)"
  shows "tasks_of (snd (finish_task h seg s)) k' =
     (if k' = fst h then remove1 (snd h) (tasks_of s k') else tasks_of s k')"
proof (cases "on_key (fst h) seg (quantum_processors s)")
  case (Pair r ps)
  then have ps: "ps = snd (on_key (fst h) seg (quantum_processors s))"
    and r: "r = fst (on_key (fst h) seg (quantum_processors s))" by simp_all
  show ?thesis
  proof (cases "map_of (quantum_processors s) (fst h)")
    case None
    with r have "r = None" by (simp add: on_key_result)
    with Pair None show ?thesis by (simp add: finish_task_def tasks_of_def)
  next
    case (Some p)
    with r obtain x where "r = Some x" by (simp add: on_key_result)
    with Pair have "quantum_processors (snd (finish_task h seg s)) = ps"
      by (simp add: finish_task_def)
    with ps Some assms show ?thesis by (simp add: tasks_of_def on_key_map_of)
  qed
qed

lemma suspended_finish:
  "map_of (quantum_processors s) (fst h) \<noteq> None \<Longrightarrow>
     suspended (snd (finish_task h seg s)) = remove1 h (suspended s)"
proof (cases "on_key (fst h) seg (quantum_processors s)")
  case (Pair r ps)
  assume "map_of (quantum_processors s) (fst h) \<noteq> None"
  moreover from Pair have "r = fst (on_key (fst h) seg (quantum_processors s))" by simp
  ultimately obtain x where "r = Some x" by (auto simp: on_key_result)
  with Pair show ?thesis by (simp add: finish_task_def)
qed

lemma release_tasks: "current_tasks (release tid p) = remove1 tid (current_tasks p)"
  by (simp add: release_def remove1_idem)

lemma segment_tasks:
  "current_tasks (snd (resume k tid tt ps d now p)) = remove1 tid (current_tasks p)"
  "current_tasks (snd (cancelled tid p)) = remove1 tid (current_tasks p)"
  by (simp_all add: resume_def cancelled_def release_tasks decohere_def split: sum.splits)

lemma held_key:
  assumes "held_ok s" "h \<in> set (suspended s)"
  shows "snd h \<in> set (tasks_of s (fst h))" "map_of (quantum_processors s) (fst h) \<noteq> None"
proof -
  from assms(2) have "count_list (suspended s) (fst h, snd h) \<noteq> 0"
    by (simp add: count_list_0_iff)
  with assms(1) have "count_list (tasks_of s (fst h)) (snd h) \<noteq> 0" by (simp add: held_ok_def)
  then show "snd h \<in> set (tasks_of s (fst h))" by (simp add: count_list_0_iff)
  then show "map_of (quantum_processors s) (fst h) \<noteq> None"
    by (cases "map_of (quantum_processors s) (fst h)") (simp_all add: tasks_of_def)
qed

lemma finish_held:
  assumes "held_ok s" "h \<in> set (suspended s)"
    and "\<And>p. current_tasks (snd (seg p)) = remove1 (snd h) (current_tasks p)"
  shows "held_ok (snd (finish_task h seg s))"
proof -
  note k = held_key [OF assms(1,2)]
  let ?s' = "snd (finish_task h seg s)"
  have t: "tasks_of ?s' k' = (if k' = fst h then remove1 (snd h) (tasks_of s k') else tasks_of s k')"
    for k' by (rule tasks_of_finish [OF assms(3)])
  have u: "suspended ?s' = remove1 h (suspended s)" by (rule suspended_finish [OF k(2)])
  from assms(1) have c: "count_list (tasks_of s k') tid = count_list (suspended s) (k', tid)"
    for k' tid by (simp add: held_ok_def)
  have "count_list (tasks_of ?s' k') tid = count_list (suspended ?s') (k', tid)" for k' tid
  proof (cases "h = (k', tid)")
    case True
    then have "k' = fst h" "tid = snd h" by auto
    with True show ?thesis by (simp add: t u c count_list_remove1)
  next
    case False
    then have "k' \<noteq> fst h \<or> tid \<noteq> snd h" by (cases h) auto
    with False show ?thesis by (auto simp: t u c count_list_remove1)
  qed
  then show ?thesis by (simp add: held_ok_def)
qed

lemma held_loads: "loads s' = loads s \<Longrightarrow> suspended s' = suspended s \<Longrightarrow> held_ok s' = held_ok s"
  by (simp add: held_ok_def tasks_of_loads)

lemma suspended_consume: "suspended (consume stream_name w s) = suspended s"
proof (cases "map_of (data_streams s) stream_name")
  case None
  then show ?thesis by (simp add: consume_def)
next
  case (Some q)
  obtain q' s' where l: "loop_state (process_data_stream_pass stream_name w (q, s)) = (q', s')"
    by (cases "loop_state (process_data_stream_pass stream_name w (q, s))")
  from pass_effect [OF l] Some l show ?thesis by (simp add: consume_def)
qed

lemma suspended_controller: "suspended (adaptive_optimization_pass s) = suspended s"
  by (simp add: adaptive_optimization_pass_def perform_adaptive_optimization_def
      split: prod.splits)

lemma step_held:
  assumes "held_ok s"
  shows "held_ok (step a s)"
proof (cases a)
  case (Submit now)
  with assms show ?thesis by (simp add: admit_held)
next
  case (Resume h tt ps d now)
  with assms show ?thesis by (simp add: finish_held segment_tasks)
next
  case (Cancelled h)
  with assms show ?thesis by (simp add: finish_held segment_tasks)
next
  case (Produce n ev)
  with assms show ?thesis using held_loads [OF loads_other(1) [of n ev s]] by simp
next
  case (Consume n w)
  with assms show ?thesis
    using held_loads [OF loads_other(2) [of n w s]] by (simp add: suspended_consume)
next
  case (Monitor m)
  with assms show ?thesis
    using held_loads [OF loads_other(3) [of m s]] by (simp add: monitor_performance_pass_def Let_def)
next
  case Controller
  with assms show ?thesis
    using held_loads [OF loads_other(4) [of s]] by (simp add: suspended_controller)
qed

lemma run_held: "held_ok s \<Longrightarrow> held_ok (run as s)"
  by (induction as arbitrary: s) (simp_all add: step_held)

text \<open>
  Claim C3, as the code has it. While a call of \<^verbatim>\<open>execute_quantum_task\<close> is suspended its
  task id is in the list of its processor. When the call ends, by returning, by an
  exception of the work or by cancellation, the \<^verbatim>\<open>finally\<close> block takes one
  occurrence of the id off that list, exactly one: the list gets one shorter. If no
  other suspended call on the processor has the same id, the id is then gone from
  the list.
\<close>

theorem release_exactly_once:
  assumes "held_ok s0" and "(k, tid) \<in> set (suspended (run as s0))"
    and "s' = step (Resume (k, tid) task_type ps d now) (run as s0)
         \<or> s' = step (Cancelled (k, tid)) (run as s0)"
  shows "tid \<in> set (tasks_of (run as s0) k)
       \<and> count_list (tasks_of s' k) tid + 1 = count_list (tasks_of (run as s0) k) tid
       \<and> length (tasks_of s' k) + 1 = length (tasks_of (run as s0) k)
       \<and> (count_list (suspended (run as s0)) (k, tid) = 1 \<longrightarrow> tid \<notin> set (tasks_of s' k))"
proof -
  let ?s = "run as s0"
  from assms(1) have h: "held_ok ?s" by (rule run_held)
  from held_key [OF h assms(2)] have m: "tid \<in> set (tasks_of ?s k)" by simp
  then have c: "0 < count_list (tasks_of ?s k) tid"
    using count_list_0_iff [of "tasks_of ?s k" tid] by simp
  have "s' = snd (finish_task (k, tid) (resume k tid task_type ps d now) ?s)
      \<or> s' = snd (finish_task (k, tid) (cancelled tid) ?s)"
    using assms(2,3) by auto
  then have t: "tasks_of s' k = remove1 tid (tasks_of ?s k)"
    by (auto simp: tasks_of_finish segment_tasks)
  from h have e: "count_list (suspended ?s) (k, tid) = count_list (tasks_of ?s k) tid"
    by (simp add: held_ok_def)
  have "count_list (suspended ?s) (k, tid) = 1 \<longrightarrow> tid \<notin> set (tasks_of s' k)"
  proof
    assume "count_list (suspended ?s) (k, tid) = 1"
    with e have "count_list (tasks_of s' k) tid = 0" by (simp add: t count_list_remove1)
    then show "tid \<notin> set (tasks_of s' k)" by (simp add: count_list_0_iff)
  qed
  moreover from m have "0 < length (tasks_of ?s k)" by (cases "tasks_of ?s k") simp_all
  ultimately show ?thesis using m c by (simp add: t count_list_remove1 length_remove1)
qed

theorem release_exactly_once_witness:
  "held_ok (started 0)
   \<and> (''quantum_core_1'', quantum_task 1) \<in> set (suspended (run [Submit 1] (started 0)))
   \<and> tasks_of (run [Submit 1] (started 0)) ''quantum_core_1'' = [quantum_task 1]
   \<and> quantum_task 1 \<notin> set (tasks_of
        (step (Cancelled (''quantum_core_1'', quantum_task 1)) (run [Submit 1] (started 0)))
        ''quantum_core_1'')"
  using release_exactly_once [of "started 0" "''quantum_core_1''" "quantum_task 1" "[Submit 1]"
      "step (Cancelled (''quantum_core_1'', quantum_task 1)) (run [Submit 1] (started 0))"]
  by (simp add: held_ok_def exec_defs)

text \<open>
  Claim C3 says that after the run the id is no longer in the list, for every admitted
  task. The id is the clock reading: two submissions at the same reading get the same
  id on the same processor, and when the first of them has returned, its id is still
  in the list.
\<close>

theorem release_same_clock_counterexample:
  "quantum_task 1 \<in> set (tasks_of
     (run [Submit 1, Submit 1,
           Resume (''quantum_core_1'', quantum_task 1) ''prediction'' [] sample_draws 2]
        (started 0))
     ''quantum_core_1'')"
  by (simp add: exec_defs generate_quantum_result_def)

subsection \<open>Exceptions of the work\<close>

lemma admit_Inr:
  assumes "fst (admit now s) = Inr h"
  shows "map_of (quantum_processors (snd (admit now s))) (fst h) \<noteq> None"
proof (cases "find_available (quantum_processors s)")
  case None
  with assms show ?thesis by (simp add: admit_def)
next
  case (Some k)
  from find_available_key [OF this] obtain p where "map_of (quantum_processors s) k = Some p"
    by blast
  with Some assms show ?thesis
    by (auto simp: admit_def on_key_map_of split: if_splits)
qed

lemma finish_task_result:
  assumes "map_of (quantum_processors s) (fst h) = Some p"
  shows "fst (finish_task h seg s) = fst (seg p)"
proof (cases "on_key (fst h) seg (quantum_processors s)")
  case (Pair r ps)
  then have "r = fst (on_key (fst h) seg (quantum_processors s))" by simp
  with assms have "r = Some (fst (seg p))" by (simp add: on_key_result)
  with Pair show ?thesis by (simp add: finish_task_def)
qed

lemma resume_raises:
  "generate_quantum_result task_type ps d = Inl e \<Longrightarrow>
     resume k tid task_type ps d now p = (Inl e, release tid p)"
  by (simp add: resume_def)

text \<open>
  Claim C4, as the code has it: \<^verbatim>\<open>execute_quantum_task\<close> has a \<^verbatim>\<open>finally\<close> block and no
  \<^verbatim>\<open>except\<close> clause. An exception raised by the work of an admitted task leaves the
  call as it is, to the caller, after the slot of the processor is free again; no
  result is built. This holds for a task resumed in any interleaving and for the call
  run in one piece.
\<close>

theorem work_exception_propagates:
  assumes "generate_quantum_result task_type ps d = Inl e"
  shows "(held_ok s0 \<and> (k, tid) \<in> set (suspended (run as s0)) \<longrightarrow>
            fst (finish_task (k, tid) (resume k tid task_type ps d later) (run as s0)) = Inl e)
       \<and> (fst (admit now s) = Inr (k, tid) \<longrightarrow>
            fst (execute_quantum_task task_type ps d now later s) = Inl e
            \<and> length (tasks_of (snd (execute_quantum_task task_type ps d now later s)) k)
                = length (tasks_of s k))"
proof (intro conjI impI)
  assume a: "held_ok s0 \<and> (k, tid) \<in> set (suspended (run as s0))"
  then have "held_ok (run as s0)" by (simp add: run_held)
  from held_key(2) [OF this, of "(k, tid)"] a
  obtain p where "map_of (quantum_processors (run as s0)) (fst (k, tid)) = Some p" by auto
  from finish_task_result [OF this]
  show "fst (finish_task (k, tid) (resume k tid task_type ps d later) (run as s0)) = Inl e"
    by (simp add: resume_raises [OF assms])
next
  assume a: "fst (admit now s) = Inr (k, tid)"
  obtain s1 where s1: "admit now s = (Inr (k, tid), s1)" using a by (cases "admit now s") simp
  from admit_Inr [OF a] s1 obtain p where p: "map_of (quantum_processors s1) (fst (k, tid)) = Some p"
    by auto
  from s1 have x: "execute_quantum_task task_type ps d now later s
      = finish_task (k, tid) (resume k tid task_type ps d later) s1"
    by (simp add: execute_quantum_task_def)
  from finish_task_result [OF p]
  show "fst (execute_quantum_task task_type ps d now later s) = Inl e"
    by (simp add: x resume_raises [OF assms])
  have "tasks_of s1 k = tasks_of s k @ [tid]"
    using tasks_of_admit [of now s k] s1 by simp
  moreover have "tasks_of (snd (finish_task (k, tid) (resume k tid task_type ps d later) s1)) k
      = remove1 tid (tasks_of s1 k)"
    by (simp add: tasks_of_finish segment_tasks)
  ultimately show "length (tasks_of (snd (execute_quantum_task task_type ps d now later s)) k)
      = length (tasks_of s k)"
    by (simp add: x length_remove1)
qed

theorem work_exception_propagates_witness:
  "generate_quantum_result ''optimization'' [(''variables'', PNone)] sample_draws = Inl TypeError
   \<and> held_ok (started 0)
   \<and> (''quantum_core_1'', quantum_task 1) \<in> set (suspended (run [Submit 1] (started 0)))
   \<and> fst (finish_task (''quantum_core_1'', quantum_task 1)
            (resume ''quantum_core_1'' (quantum_task 1) ''optimization'' [(''variables'', PNone)]
               sample_draws 2)
            (run [Submit 1] (started 0))) = Inl TypeError
   \<and> fst (admit 1 (started 0)) = Inr (''quantum_core_1'', quantum_task 1)
   \<and> fst (execute_quantum_task ''optimization'' [(''variables'', PNone)] sample_draws 1 2
            (started 0)) = Inl TypeError
   \<and> tasks_of (snd (execute_quantum_task ''optimization'' [(''variables'', PNone)] sample_draws 1 2
            (started 0))) ''quantum_core_1'' = []"
  using work_exception_propagates [of "''optimization''" "[(''variables'', PNone)]" sample_draws
      TypeError "started 0" "''quantum_core_1''" "quantum_task 1" "[Submit 1]" 2 1 "started 0"]
  by (simp add: held_ok_def exec_defs generate_quantum_result_def dict_get_def
      execute_quantum_task_def)

text \<open>
  Claim C4 says that an exception of the task's work is turned into a failed result
  and never reaches the caller. An optimization task whose \<^verbatim>\<open>variables\<close> is the number
  5 raises \<^verbatim>\<open>TypeError\<close> in \<^verbatim>\<open>len\<close>, and the caller gets that exception.
\<close>

theorem work_exception_counterexample:
  "fst (execute_quantum_task ''optimization'' [(''variables'', PInt 5)] sample_draws 1 2
          (started 0)) = Inl TypeError"
  by (simp add: exec_defs generate_quantum_result_def dict_get_def execute_quantum_task_def)

subsection \<open>The bounds of the coherence\<close>

lemma on_key_preserve:
  assumes "\<forall>kv\<in>set xs. P kv" and "\<And>v. P (k, v) \<Longrightarrow> P (k, snd (f v))"
  shows "\<forall>kv\<in>set (snd (on_key k f xs)). P kv"
proof
  fix kv assume "kv \<in> set (snd (on_key k f xs))"
  from on_key_set [OF this] show "P kv"
  proof
    assume "kv \<in> set xs"
    with assms(1) show ?thesis by simp
  next
    assume "\<exists>v. map_of xs k = Some v \<and> kv = (k, snd (f v))"
    then obtain v where v: "map_of xs k = Some v" "kv = (k, snd (f v))" by blast
    from v(1) have "(k, v) \<in> set xs" by (rule map_of_SomeD)
    with assms(1) have "P (k, v)" by simp
    with assms(2) v(2) show ?thesis by simp
  qed
qed

lemma quality_ok_unit: "quality_ok s \<longleftrightarrow> (\<forall>kp\<in>set (quantum_processors s). unit_ok kp)"
  by (simp add: quality_ok_def unit_ok_def)

lemma admit_quality: "quality_ok s \<Longrightarrow> quality_ok (snd (admit now s))"
proof -
  assume q: "quality_ok s"
  have "\<forall>kv\<in>set (snd (on_key k (append_task tid) (quantum_processors s))). unit_ok kv" for k tid
    using q by (intro on_key_preserve) (simp_all add: quality_ok_unit unit_ok_def append_task_def)
  with q show ?thesis by (simp add: admit_def quality_ok_unit split: option.splits)
qed

lemma segment_quality:
  assumes "unit_ok (k', p)"
  shows "unit_ok (k', snd (resume k tid tt ps d now p))" "unit_ok (k', snd (cancelled tid p))"
proof -
  from assms have c: "0 \<le> coherence (state p)" "coherence (state p) \<le> 1"
    by (simp_all add: unit_ok_def)
  then have "0 \<le> coherence (state p) * 0.99" "coherence (state p) * 0.99 \<le> 1" by simp_all
  with c show "unit_ok (k', snd (resume k tid tt ps d now p))"
    by (simp add: unit_ok_def resume_def release_def decohere_def split: sum.splits)
  from c show "unit_ok (k', snd (cancelled tid p))"
    by (simp add: unit_ok_def cancelled_def release_def)
qed

lemma finish_task_quality:
  assumes "quality_ok s" and "\<And>p. unit_ok (fst h, p) \<Longrightarrow> unit_ok (fst h, snd (seg p))"
  shows "quality_ok (snd (finish_task h seg s))"
proof (cases "on_key (fst h) seg (quantum_processors s)")
  case (Pair r ps)
  then have "ps = snd (on_key (fst h) seg (quantum_processors s))" by simp
  moreover have "\<forall>kv\<in>set (snd (on_key (fst h) seg (quantum_processors s))). unit_ok kv"
    using assms by (intro on_key_preserve) (simp_all add: quality_ok_unit)
  ultimately have "\<forall>kv\<in>set ps. unit_ok kv" by simp
  with Pair assms(1) show ?thesis
    by (cases r) (simp_all add: finish_task_def quality_ok_unit)
qed

lemma store_coherence_quality:
  assumes "event_in_range data" "unit_ok kp"
  shows "unit_ok (store_coherence data kp)"
proof (cases kp)
  case (Pair k p)
  show ?thesis
  proof (cases "map_of data k")
    case None
    with Pair assms(2) show ?thesis by (simp add: store_coherence_def)
  next
    case (Some entry)
    then have e: "(k, entry) \<in> set data" by (rule map_of_SomeD)
    show ?thesis
    proof (cases "map_of entry ''coherence''")
      case None
      with Some Pair assms(2) show ?thesis
        by (simp add: store_coherence_def unit_ok_def dict_get_def)
    next
      case (Some v)
      then have "(''coherence'', v) \<in> set entry" by (rule map_of_SomeD)
      with e assms(1) have "0 \<le> v \<and> v \<le> 1" by (fastforce simp: event_in_range_def)
      with Some \<open>map_of data k = Some entry\<close> Pair show ?thesis
        by (simp add: store_coherence_def unit_ok_def dict_get_def)
    qed
  qed
qed

lemma recalibrate_quality: "unit_ok (k, p) \<Longrightarrow> unit_ok (k, recalibrate p)"
  by (auto simp: unit_ok_def recalibrate_def)

lemma controller_quality: "quality_ok s \<Longrightarrow> quality_ok (adaptive_optimization_pass s)"
  by (auto simp: adaptive_optimization_pass_def perform_adaptive_optimization_def
      quality_ok_def optimize_processors_def clear_overloaded_eq recalibrate_def)

lemma events_ok_stream: "events_ok s \<longleftrightarrow> (\<forall>nq\<in>set (data_streams s). stream_ok nq)"
  by (simp add: events_ok_def stream_ok_def)

lemma admit_streams: "data_streams (snd (admit now s)) = data_streams s"
  by (simp add: admit_def split: option.splits)

lemma finish_task_streams: "data_streams (snd (finish_task h seg s)) = data_streams s"
  by (simp add: finish_task_def split: prod.splits option.splits)

lemma produce_events:
  assumes "events_ok s" "in_range_activity (Produce n ev)"
  shows "events_ok (step (Produce n ev) s)"
proof -
  have "\<forall>kv\<in>set (snd (on_key n (produce ev) (data_streams s))). stream_ok kv"
  proof (intro on_key_preserve)
    from assms(1) show "\<forall>kv\<in>set (data_streams s). stream_ok kv" by (simp add: events_ok_stream)
  next
    fix v assume "stream_ok (n, v)"
    with assms(2) show "stream_ok (n, snd (produce ev v))"
      by (auto simp: stream_ok_def produce_def put_nowait_def)
  qed
  then show ?thesis by (simp add: events_ok_stream)
qed

lemma consume_ok:
  assumes "quality_ok s" "events_ok s"
  shows "quality_ok (consume n w s) \<and> events_ok (consume n w s)"
proof (cases "map_of (data_streams s) n")
  case None
  with assms show ?thesis by (simp add: consume_def)
next
  case (Some q)
  then have m: "(n, q) \<in> set (data_streams s)" by (rule map_of_SomeD)
  with assms(2) have sq: "stream_ok (n, q)" by (simp add: events_ok_stream)
  obtain q' s' where l: "loop_state (process_data_stream_pass n w (q, s)) = (q', s')"
    by (cases "loop_state (process_data_stream_pass n w (q, s))")
  note e = pass_effect [OF l]
  from e obtain m' where d: "items q' = drop m' (items q)" by blast
  from sq d have sq': "stream_ok (n, q')" by (auto simp: stream_ok_def dest: in_set_dropD)
  have c: "consume n w s
      = s'\<lparr>data_streams := snd (on_key n (\<lambda>old. ((), q')) (data_streams s'))\<rparr>"
    using Some l by (simp add: consume_def)
  have "quality_ok s'"
  proof -
    from e consider "quantum_processors s' = quantum_processors s"
      | data where "n = ''quantum_stream''" "data \<in> set (items q)"
          "quantum_processors s' = map (store_coherence data) (quantum_processors s)"
      by blast
    then show ?thesis
    proof cases
      case 1
      with assms(1) show ?thesis by (simp add: quality_ok_def)
    next
      case 2
      with sq have "event_in_range data" by (simp add: stream_ok_def)
      with assms(1) 2(3) show ?thesis
        by (auto simp: quality_ok_unit intro: store_coherence_quality)
    qed
  qed
  moreover have "\<forall>kv\<in>set (snd (on_key n (\<lambda>old. ((), q')) (data_streams s'))). stream_ok kv"
  proof (intro on_key_preserve)
    from e assms(2) show "\<forall>kv\<in>set (data_streams s'). stream_ok kv"
      by (simp add: events_ok_stream)
  next
    fix v show "stream_ok (n, snd ((), q'))" using sq' by simp
  qed
  ultimately show ?thesis by (simp add: c quality_ok_def events_ok_stream)
qed

lemma controller_events: "events_ok s \<Longrightarrow> events_ok (adaptive_optimization_pass s)"
  by (auto simp: adaptive_optimization_pass_def perform_adaptive_optimization_def
      events_ok_def clear_overloaded_eq dest: in_set_dropD)

lemma step_ok:
  assumes "quality_ok s" "events_ok s" "in_range_activity a"
  shows "quality_ok (step a s) \<and> events_ok (step a s)"
proof (cases a)
  case (Submit now)
  with assms show ?thesis by (simp add: admit_quality events_ok_def admit_streams)
next
  case (Resume h tt ps d now)
  with assms show ?thesis
    by (simp add: finish_task_quality segment_quality events_ok_def finish_task_streams)
next
  case (Cancelled h)
  with assms show ?thesis
    by (simp add: finish_task_quality segment_quality events_ok_def finish_task_streams)
next
  case (Produce n ev)
  with assms produce_events [of s n ev] show ?thesis by (simp add: quality_ok_def)
next
  case (Consume n w)
  with assms consume_ok [of s n w] show ?thesis by simp
next
  case (Monitor m)
  with assms show ?thesis
    by (simp add: quality_ok_def events_ok_def monitor_performance_pass_def Let_def)
next
  case Controller
  with assms show ?thesis by (simp add: controller_quality controller_events)
qed

lemma run_ok:
  "quality_ok s \<Longrightarrow> events_ok s \<Longrightarrow> \<forall>a\<in>set as. in_range_activity a \<Longrightarrow>
     quality_ok (run as s) \<and> events_ok (run as s)"
proof (induction as arbitrary: s)
  case Nil
  then show ?case by simp
next
  case (Cons a as)
  from Cons.prems have "quality_ok (step a s) \<and> events_ok (step a s)"
    by (intro step_ok) simp_all
  with Cons.IH [of "step a s"] Cons.prems(3) show ?case by simp
qed

lemmas stream_defs = consume_def process_data_stream_pass_def wait_for_get_def get_nowait_def
  dispatch_def process_quantum_data_def process_surveillance_data_def
  process_operations_data_def process_analytics_data_def process_security_data_def
  process_ai_decision_data_def guarded_def store_coherence_def dict_get_def
  task_done_def loop_state_def produce_def put_nowait_def qsize_def except_clauses_def

lemmas controller_defs = adaptive_optimization_pass_def needs_optimization_def
  perform_adaptive_optimization_def optimize_processors_def recalibrate_def
  optimized_log_def models_log_def mitigations_def

text \<open>
  Claim C5, as the code has it. From a state whose coherences lie in \<open>[0, 1]\<close>, they
  stay there under every interleaving of submissions, completions (the decay by 0.99),
  cancellations, controller ticks (the recalibration by 0.1, capped at 1), monitor
  passes and stream processing, as long as the events put on the quantum stream carry
  \<^verbatim>\<open>coherence\<close> values in \<open>[0, 1]\<close> themselves: \<^verbatim>\<open>_process_quantum_data\<close> stores the
  value an event carries as it is.
\<close>

theorem quality_stays_in_unit_interval:
  assumes "quality_ok s0" and "events_ok s0" and "\<forall>a\<in>set as. in_range_activity a"
  shows "\<forall>kp\<in>set (quantum_processors (run as s0)).
           0 \<le> coherence (state (snd kp)) \<and> coherence (state (snd kp)) \<le> 1"
  using run_ok [OF assms] by (simp add: quality_ok_def)

text \<open>
  Claim C5 says that the bound holds after every operation that writes a quality. An
  event on the quantum stream that names \<^verbatim>\<open>quantum_core_1\<close> with \<^verbatim>\<open>coherence\<close> 5 sets
  the coherence of that processor to 5.
\<close>

theorem quality_unchecked_store_counterexample:
  "quality
     (run [Produce ''quantum_stream'' [(''quantum_core_1'', [(''coherence'', 5)])],
           Consume ''quantum_stream'' (Woken None)] (started 0))
     ''quantum_core_1'' = Some 5"
  by (simp add: exec_defs stream_defs)

theorem quality_stays_in_unit_interval_witness:
  "quality_ok (started 0) \<and> events_ok (started 0)
   \<and> quality
       (run [Submit 1,
             Resume (''quantum_core_1'', quantum_task 1) ''prediction'' [] sample_draws 2,
             Produce ''quantum_stream'' [(''quantum_core_2'', [(''coherence'', 0.5)])],
             Consume ''quantum_stream'' (Woken None),
             Controller] (started 0))
       ''quantum_core_2'' = Some 0.6"
  using quality_stays_in_unit_interval [of "started 0"
      "[Submit 1,
        Resume (''quantum_core_1'', quantum_task 1) ''prediction'' [] sample_draws 2,
        Produce ''quantum_stream'' [(''quantum_core_2'', [(''coherence'', 0.5)])],
        Consume ''quantum_stream'' (Woken None),
        Controller]"]
  by (simp add: quality_ok_def events_ok_def event_in_range_def exec_defs stream_defs
      controller_defs clear_overloaded_eq generate_quantum_result_def)

subsection \<open>The controller's tick\<close>

lemma filter_models_log: "filter is_mitigation (models_log ms) = []"
  by (induction ms) (simp_all add: models_log_def)

lemma filter_optimized_log: "filter is_mitigation (optimized_log ps) = optimized_log ps"
  by (induction ps) (simp_all add: optimized_log_def)

lemma mitigations_perform:
  "mitigations s (perform_adaptive_optimization s) =
     optimized_log (quantum_processors s)
     @ map (\<lambda>nq. ClearedOverloadedStream (fst nq))
         (filter (\<lambda>nq. 800 < qsize (snd nq)) (data_streams s))"
  by (simp add: mitigations_def perform_adaptive_optimization_def clear_overloaded_eq
      filter_models_log filter_optimized_log filter_map comp_def)

lemma streams_perform:
  "data_streams (perform_adaptive_optimization s) =
     map (\<lambda>nq. (fst nq, if 800 < qsize (snd nq)
                          then (snd nq)\<lparr>items := drop 100 (items (snd nq))\<rparr> else snd nq))
       (data_streams s)"
  by (simp add: perform_adaptive_optimization_def clear_overloaded_eq)

lemma pool_perform:
  "quantum_processors (perform_adaptive_optimization s) =
     map (\<lambda>kp. (fst kp, recalibrate (snd kp))) (quantum_processors s)"
  by (simp add: perform_adaptive_optimization_def optimize_processors_def split: prod.splits)

lemma metrics_perform:
  "performance_metrics (perform_adaptive_optimization s) = performance_metrics s"
  by (simp add: perform_adaptive_optimization_def split: prod.splits)

lemma mitigations_same: "mitigations s s = []"
  by (simp add: mitigations_def)

text \<open>
  Claim C6, as the code has it. A run of \<^verbatim>\<open>_perform_adaptive_optimization\<close> recalibrates
  every processor: a coherence below 0.7 grows by exactly 0.1 and stays at most 1, a
  coherence of 0.7 or more is left alone. A tick that finds every processor at 0.7 or
  above, and no stream holding more than 800 events, issues no mitigation action and
  changes neither the pool nor the streams.
\<close>

theorem recalibration_tick:
  "quantum_processors (perform_adaptive_optimization s) =
      map (\<lambda>kp. (fst kp, recalibrate (snd kp))) (quantum_processors s)
   \<and> (coherence (state p) < 0.7 \<longrightarrow>
        coherence (state (recalibrate p)) = coherence (state p) + 0.1
        \<and> coherence (state (recalibrate p)) \<le> 1)
   \<and> (0.7 \<le> coherence (state p) \<longrightarrow> recalibrate p = p)
   \<and> ((\<forall>kp\<in>set (quantum_processors s). 0.7 \<le> coherence (state (snd kp)))
        \<and> (\<forall>nq\<in>set (data_streams s). qsize (snd nq) \<le> 800) \<longrightarrow>
          mitigations s (adaptive_optimization_pass s) = []
          \<and> mitigations s (perform_adaptive_optimization s) = []
          \<and> quantum_processors (adaptive_optimization_pass s) = quantum_processors s
          \<and> data_streams (adaptive_optimization_pass s) = data_streams s)"
proof (intro conjI impI)
  show "quantum_processors (perform_adaptive_optimization s) =
      map (\<lambda>kp. (fst kp, recalibrate (snd kp))) (quantum_processors s)"
    by (rule pool_perform)
next
  assume "coherence (state p) < 0.7"
  then show "coherence (state (recalibrate p)) = coherence (state p) + 0.1"
    and "coherence (state (recalibrate p)) \<le> 1"
    by (simp_all add: recalibrate_def)
next
  assume "0.7 \<le> coherence (state p)"
  then show "recalibrate p = p" by (simp add: recalibrate_def)
next
  assume a: "(\<forall>kp\<in>set (quantum_processors s). 0.7 \<le> coherence (state (snd kp)))
        \<and> (\<forall>nq\<in>set (data_streams s). qsize (snd nq) \<le> 800)"
  then have o: "optimized_log (quantum_processors s) = []"
    by (auto simp: optimized_log_def filter_empty_conv)
  from a have f: "filter (\<lambda>nq. 800 < qsize (snd nq)) (data_streams s) = []"
    by (auto simp: filter_empty_conv)
  from o f show m: "mitigations s (perform_adaptive_optimization s) = []"
    by (simp add: mitigations_perform)
  then show "mitigations s (adaptive_optimization_pass s) = []"
    by (simp add: adaptive_optimization_pass_def mitigations_same)
  from a have "map (\<lambda>kp. (fst kp, recalibrate (snd kp))) (quantum_processors s)
      = quantum_processors s"
    by (intro map_idI) (auto simp: recalibrate_def)
  then show "quantum_processors (adaptive_optimization_pass s) = quantum_processors s"
    by (simp add: adaptive_optimization_pass_def pool_perform)
  from a have "map (\<lambda>nq. (fst nq, if 800 < qsize (snd nq)
                          then (snd nq)\<lparr>items := drop 100 (items (snd nq))\<rparr> else snd nq))
       (data_streams s) = data_streams s"
    by (intro map_idI) auto
  then show "data_streams (adaptive_optimization_pass s) = data_streams s"
    by (simp add: adaptive_optimization_pass_def streams_perform)
qed

lemmas sample_defs = loaded_def fill_def degraded_def

theorem recalibration_tick_witness:
  "quality degraded ''quantum_core_2'' = Some 0.65
   \<and> quality (perform_adaptive_optimization degraded) ''quantum_core_2'' = Some 0.75
   \<and> quality (perform_adaptive_optimization degraded) ''quantum_core_3'' = Some 0.98
   \<and> mitigations (perform_adaptive_optimization degraded)
        (adaptive_optimization_pass (perform_adaptive_optimization degraded)) = []
   \<and> quantum_processors (adaptive_optimization_pass (perform_adaptive_optimization degraded))
        = quantum_processors (perform_adaptive_optimization degraded)"
  using recalibration_tick [of "perform_adaptive_optimization degraded"
      "the (map_of (quantum_processors degraded) ''quantum_core_2'')"]
    recalibration_tick [of degraded
      "the (map_of (quantum_processors degraded) ''quantum_core_2'')"]
  by (simp add: sample_defs exec_defs stream_defs qsize_def pool_perform streams_perform
      recalibrate_def)

text \<open>
  Claim C6 says that a second tick, with every unit at or above the threshold, issues
  no mitigation action. With 1000 events on the surveillance stream and all units
  healthy, the first tick leaves 900 events and the second tick clears the stream
  again.
\<close>

theorem idle_tick_sheds_counterexample:
  "quality (adaptive_optimization_pass (loaded ''surveillance_stream'' 1000 (started 0)))
     ''quantum_core_1'' = Some 1
   \<and> quality (adaptive_optimization_pass (loaded ''surveillance_stream'' 1000 (started 0)))
     ''quantum_core_2'' = Some 0.95
   \<and> quality (adaptive_optimization_pass (loaded ''surveillance_stream'' 1000 (started 0)))
     ''quantum_core_3'' = Some 0.98
   \<and> depth (adaptive_optimization_pass (loaded ''surveillance_stream'' 1000 (started 0)))
     ''surveillance_stream'' = Some 900
   \<and> mitigations (adaptive_optimization_pass (loaded ''surveillance_stream'' 1000 (started 0)))
       (adaptive_optimization_pass
          (adaptive_optimization_pass (loaded ''surveillance_stream'' 1000 (started 0))))
     = [ClearedOverloadedStream ''surveillance_stream'']"
  by (simp add: sample_defs exec_defs qsize_def adaptive_optimization_pass_def
      needs_optimization_def metrics_perform mitigations_perform pool_perform streams_perform
      recalibrate_def optimized_log_def)

subsection \<open>Shedding\<close>

lemma streams_tick:
  "data_streams (adaptive_optimization_pass s) =
     map (\<lambda>nq. (fst nq, if needs_optimization s \<and> 800 < qsize (snd nq)
                          then (snd nq)\<lparr>items := drop 100 (items (snd nq))\<rparr> else snd nq))
       (data_streams s)"
proof (cases "needs_optimization s")
  case True
  then show ?thesis by (simp add: adaptive_optimization_pass_def streams_perform)
next
  case False
  have "map (\<lambda>nq. (fst nq, snd nq)) (data_streams s) = data_streams s" by simp
  with False show ?thesis by (simp add: adaptive_optimization_pass_def)
qed

lemma logged_perform:
  "logged (perform_adaptive_optimization s) =
     logged s @ [PerformingAdaptiveOptimization] @ optimized_log (quantum_processors s)
       @ models_log (ai_models s)
       @ map (\<lambda>nq. ClearedOverloadedStream (fst nq))
           (filter (\<lambda>nq. 800 < qsize (snd nq)) (data_streams s))
       @ [AdaptiveOptimizationCompleted]"
  by (simp add: perform_adaptive_optimization_def clear_overloaded_eq)

lemma busy_metrics:
  "needs_optimization busy = False"
  "depth busy ''surveillance_stream'' = Some 1000"
  by (simp_all add: busy_def sample_monitor_draws_def sample_defs exec_defs
      produce_def put_nowait_def qsize_def monitor_performance_pass_def Let_def
      measure_processing_efficiency_def measure_predictive_accuracy_def
      measure_system_reliability_def measure_quantum_coherence_def mean_def
      needs_optimization_def)

text \<open>
  Claim C7, as the code has it, for a stream of capacity 1000. The controller's tick
  runs \<^verbatim>\<open>_perform_adaptive_optimization\<close> only when \<^verbatim>\<open>_needs_optimization\<close> holds, a test
  of the monitored metrics that reads no queue. On such a tick the stream is cleared
  when its depth is strictly above 800, that is above 80 percent of its capacity, and
  then loses its 100 oldest events, 10 percent of its capacity. At a depth of 800 or
  less, and on a tick whose test fails, the stream is left as it is.
\<close>

theorem shed_above_800:
  assumes "i < length (data_streams s)" and "data_streams s ! i = (stream_name, q)"
    and "maxsize q = 1000"
  shows "data_streams (adaptive_optimization_pass s) ! i =
           (stream_name,
            if needs_optimization s \<and> 8 * maxsize q < 10 * qsize q
            then q\<lparr>items := drop (maxsize q div 10) (items q)\<rparr> else q)
       \<and> data_streams (perform_adaptive_optimization s) ! i =
           (stream_name,
            if 8 * maxsize q < 10 * qsize q
            then q\<lparr>items := drop (maxsize q div 10) (items q)\<rparr> else q)
       \<and> (8 * maxsize q < 10 * qsize q \<longrightarrow>
            qsize (snd (data_streams (perform_adaptive_optimization s) ! i)) + maxsize q div 10
              = qsize q)"
proof -
  have "8 * maxsize q < 10 * qsize q \<longleftrightarrow> 800 < qsize q" using assms(3) by auto
  moreover have "maxsize q div 10 = 100" using assms(3) by simp
  ultimately show ?thesis
    using assms(1,2) by (auto simp: streams_perform streams_tick qsize_def)
qed

theorem shed_above_800_witness:
  "data_streams (loaded ''surveillance_stream'' 900 (started 0)) ! 0
      = (''surveillance_stream'', \<lparr>maxsize = 1000, items = replicate 900 [], unfinished = 900\<rparr>)
   \<and> needs_optimization (loaded ''surveillance_stream'' 900 (started 0))
   \<and> data_streams (adaptive_optimization_pass (loaded ''surveillance_stream'' 900 (started 0))) ! 0
      = (''surveillance_stream'', \<lparr>maxsize = 1000, items = replicate 800 [], unfinished = 900\<rparr>)
   \<and> data_streams (perform_adaptive_optimization (loaded ''surveillance_stream'' 900 (started 0))) ! 0
      = (''surveillance_stream'', \<lparr>maxsize = 1000, items = replicate 800 [], unfinished = 900\<rparr>)
   \<and> data_streams busy ! 0
      = (''surveillance_stream'', \<lparr>maxsize = 1000, items = replicate 1000 [], unfinished = 1000\<rparr>)
   \<and> needs_optimization busy = False
   \<and> data_streams (adaptive_optimization_pass busy) ! 0
      = (''surveillance_stream'', \<lparr>maxsize = 1000, items = replicate 1000 [], unfinished = 1000\<rparr>)"
proof -
  have a: "data_streams (loaded ''surveillance_stream'' 900 (started 0)) ! 0
      = (''surveillance_stream'', \<lparr>maxsize = 1000, items = replicate 900 [], unfinished = 900\<rparr>)"
    by (simp add: sample_defs exec_defs)
  have b: "data_streams busy ! 0
      = (''surveillance_stream'', \<lparr>maxsize = 1000, items = replicate 1000 [], unfinished = 1000\<rparr>)"
    by (simp add: busy_def sample_defs exec_defs monitor_performance_pass_def Let_def
        produce_def put_nowait_def qsize_def)
  have c: "needs_optimization (loaded ''surveillance_stream'' 900 (started 0))"
    by (simp add: sample_defs exec_defs needs_optimization_def)
  have la: "0 < length (data_streams (loaded ''surveillance_stream'' 900 (started 0)))"
    by (simp add: sample_defs exec_defs)
  have lb: "0 < length (data_streams busy)"
    by (simp add: busy_def sample_defs exec_defs monitor_performance_pass_def Let_def
        produce_def put_nowait_def qsize_def)
  from shed_above_800 [OF la a] shed_above_800 [OF lb b] a b c busy_metrics(1)
  show ?thesis by (simp add: qsize_def)
qed

text \<open>
  Claim C7 says that shedding fires at a depth at or above 80 percent of the capacity.
  A stream of capacity 1000 holding exactly 800 events is left as it is.
\<close>

theorem shed_at_threshold_counterexample:
  "depth (loaded ''surveillance_stream'' 800 (started 0)) ''surveillance_stream'' = Some 800
   \<and> depth (perform_adaptive_optimization (loaded ''surveillance_stream'' 800 (started 0)))
        ''surveillance_stream'' = Some 800
   \<and> mitigations (loaded ''surveillance_stream'' 800 (started 0))
        (perform_adaptive_optimization (loaded ''surveillance_stream'' 800 (started 0))) = []"
  by (simp add: sample_defs exec_defs qsize_def mitigations_perform streams_perform
      optimized_log_def)

text \<open>
  The test compares with the number 800 for every stream: a stream of capacity 500
  never holds more than 800 events and is never cleared.
\<close>

lemma narrow_stream_never_shed:
  assumes "i < length (data_streams s)" and "data_streams s ! i = (stream_name, q)"
    and "maxsize q = 500" and "qsize q \<le> maxsize q"
  shows "data_streams (perform_adaptive_optimization s) ! i = (stream_name, q)"
  using assms by (simp add: streams_perform)

text \<open>
  Claim C10: a shed by the controller takes \<open>min(100, depth)\<close> events, the oldest
  ones, off the channel it clears. The drain loop ends at an empty queue through the
  caught \<^verbatim>\<open>QueueEmpty\<close>, so it raises nothing and the depth after it is the depth
  before less that number. In \<^verbatim>\<open>_perform_adaptive_optimization\<close> every stream of more
  than 800 events is replaced by its drained queue, every other stream is untouched,
  the run ends with its closing line and not in its \<^verbatim>\<open>except\<close> clause; the tick
  does the same when its test holds and nothing otherwise.
\<close>

theorem shed_removes_min:
  "fst (drain 100 q) = None
   \<and> items (snd (drain 100 q)) = drop 100 (items q)
   \<and> qsize (snd (drain 100 q)) + min 100 (qsize q) = qsize q
   \<and> fst (clear_overloaded streams) = None
   \<and> last (logged (perform_adaptive_optimization s)) = AdaptiveOptimizationCompleted
   \<and> length (data_streams (perform_adaptive_optimization s)) = length (data_streams s)
   \<and> (i < length (data_streams s) \<and> data_streams s ! i = (stream_name, q') \<longrightarrow>
        fst (data_streams (perform_adaptive_optimization s) ! i) = stream_name
        \<and> maxsize (snd (data_streams (perform_adaptive_optimization s) ! i)) = maxsize q'
        \<and> (800 < qsize q' \<longrightarrow>
              data_streams (perform_adaptive_optimization s) ! i = (stream_name, snd (drain 100 q'))
              \<and> items (snd (data_streams (perform_adaptive_optimization s) ! i))
                  = drop (min 100 (qsize q')) (items q')
              \<and> qsize (snd (data_streams (perform_adaptive_optimization s) ! i))
                    + min 100 (qsize q') = qsize q')
        \<and> (qsize q' \<le> 800 \<longrightarrow>
              data_streams (perform_adaptive_optimization s) ! i = (stream_name, q'))
        \<and> data_streams (adaptive_optimization_pass s) ! i =
              (stream_name,
               if needs_optimization s \<and> 800 < qsize q' then snd (drain 100 q') else q'))"
proof -
  have "last (logged (perform_adaptive_optimization s)) = AdaptiveOptimizationCompleted"
    by (simp add: logged_perform)
  moreover have "800 < qsize q' \<Longrightarrow> min 100 (qsize q') = 100" by simp
  ultimately show ?thesis
    by (auto simp: drain_eq clear_overloaded_eq qsize_def streams_perform streams_tick)
qed

theorem shed_removes_min_witness:
  "fst (drain 100 (Queue 1000\<lparr>items := replicate 30 []\<rparr>)) = None
   \<and> items (snd (drain 100 (Queue 1000\<lparr>items := replicate 30 []\<rparr>))) = []
   \<and> data_streams (loaded ''surveillance_stream'' 900 (started 0)) ! 0
      = (''surveillance_stream'', \<lparr>maxsize = 1000, items = replicate 900 [], unfinished = 900\<rparr>)
   \<and> data_streams (perform_adaptive_optimization (loaded ''surveillance_stream'' 900 (started 0))) ! 0
      = (''surveillance_stream'', \<lparr>maxsize = 1000, items = replicate 800 [], unfinished = 900\<rparr>)
   \<and> depth (perform_adaptive_optimization (loaded ''surveillance_stream'' 900 (started 0)))
        ''surveillance_stream'' = Some 800"
proof -
  have a: "data_streams (loaded ''surveillance_stream'' 900 (started 0)) ! 0
      = (''surveillance_stream'', \<lparr>maxsize = 1000, items = replicate 900 [], unfinished = 900\<rparr>)"
    by (simp add: sample_defs exec_defs)
  have la: "0 < length (data_streams (loaded ''surveillance_stream'' 900 (started 0)))"
    by (simp add: sample_defs exec_defs)
  have d: "depth (perform_adaptive_optimization (loaded ''surveillance_stream'' 900 (started 0)))
        ''surveillance_stream'' = Some 800"
    by (simp add: sample_defs exec_defs qsize_def streams_perform)
  from shed_removes_min [of "Queue 1000\<lparr>items := replicate 30 []\<rparr>" "[]"
      "loaded ''surveillance_stream'' 900 (started 0)" 0 "''surveillance_stream''"
      "\<lparr>maxsize = 1000, items = replicate 900 [], unfinished = 900\<rparr>"] la a d
  show ?thesis by (simp add: Queue_def qsize_def drain_eq)
qed

text \<open>
  Claim C8, as the code has it: the code keeps no count of the events it drops. A run
  of \<^verbatim>\<open>_perform_adaptive_optimization\<close> leaves the metrics, and with them the
  dictionary that is published, as they were; the dictionary has the seven fixed
  names below. A cleared stream shows only as one logged line with its name.
\<close>

theorem shed_not_counted:
  "performance_metrics (perform_adaptive_optimization s) = performance_metrics s
   \<and> metrics_data (perform_adaptive_optimization s) = metrics_data s
   \<and> map fst (metrics_data s) =
       [''processing_efficiency'', ''predictive_accuracy'', ''system_reliability'',
        ''quantum_coherence'', ''ai_confidence'', ''real_time_performance'',
        ''cross_system_correlation'']
   \<and> mitigations s (perform_adaptive_optimization s) =
       optimized_log (quantum_processors s)
       @ map (\<lambda>nq. ClearedOverloadedStream (fst nq))
           (filter (\<lambda>nq. 800 < qsize (snd nq)) (data_streams s))"
  by (simp add: metrics_perform metrics_data_def mitigations_perform)

theorem shed_not_counted_witness:
  "metrics_data (perform_adaptive_optimization (loaded ''analytics_stream'' 1000 (started 0)))
     = metrics_data (loaded ''analytics_stream'' 1000 (started 0))
   \<and> mitigations (loaded ''analytics_stream'' 1000 (started 0))
        (perform_adaptive_optimization (loaded ''analytics_stream'' 1000 (started 0)))
     = [ClearedOverloadedStream ''analytics_stream'']"
  using shed_not_counted [of "loaded ''analytics_stream'' 1000 (started 0)"]
  by (simp add: sample_defs exec_defs qsize_def optimized_log_def)

text \<open>
  Claim C8 says that a shed of \<open>k\<close> events raises a dropped counter of the channel by
  \<open>k\<close> and that the counter shows in the metrics. A shed that takes 100 events off the
  surveillance stream leaves every published metric at its value.
\<close>

theorem shed_dropped_counter_counterexample:
  "depth (loaded ''surveillance_stream'' 900 (started 0)) ''surveillance_stream'' = Some 900
   \<and> depth (perform_adaptive_optimization (loaded ''surveillance_stream'' 900 (started 0)))
        ''surveillance_stream'' = Some 800
   \<and> metrics_data (perform_adaptive_optimization (loaded ''surveillance_stream'' 900 (started 0)))
        = [(''processing_efficiency'', 0), (''predictive_accuracy'', 0),
           (''system_reliability'', 0), (''quantum_coherence'', 0), (''ai_confidence'', 0),
           (''real_time_performance'', 0), (''cross_system_correlation'', 0)]
   \<and> metrics_data (loaded ''surveillance_stream'' 900 (started 0))
        = [(''processing_efficiency'', 0), (''predictive_accuracy'', 0),
           (''system_reliability'', 0), (''quantum_coherence'', 0), (''ai_confidence'', 0),
           (''real_time_performance'', 0), (''cross_system_correlation'', 0)]"
  by (simp add: sample_defs exec_defs qsize_def metrics_data_def metrics_perform streams_perform)

subsection \<open>The loop of a stream processor\<close>














end
